theory Spec2Isabelle
  imports Main "HOL-Library.Word" "HOL-Library.Sublist"
begin

section \<open>The echo server of \<open>src/server.c\<close>\<close>

text \<open>
  The program talks to the operating system only: \<open>recv\<close>, \<open>send\<close>, \<open>close\<close>,
  \<open>accept\<close> and the two output streams. Each function of the source is modelled as a
  function from the results the system calls deliver (a script, consumed in call order)
  to the list of calls the function makes (its trace) and the way it ends. A script is
  finite: a function whose next call finds the script empty is still inside that call
  (\<open>Blocked\<close>), which is how a run that has not returned yet shows up in the model.
  The threads that \<open>main\<close> starts run on their own: the trace of \<open>main\<close> records
  the start of each, and a handler is modelled by itself, on its own connection.
\<close>

subsection \<open>Data\<close>

text \<open>
  \<open>sockaddr_in\<close> as it lies in memory: the port and the address are stored in network
  byte order, most significant octet first. \<open>sin_family\<close> is always \<open>AF_INET\<close> and is
  left out.
\<close>

record sockaddr_in =
  sin_port :: "8 word \<times> 8 word"
  sin_addr :: "8 word list"

text \<open>What a \<open>recv\<close> call delivers: the bytes put into the buffer (\<open>n\<close> is their number,
  0 for an orderly close of the peer), or -1 with \<open>errno\<close>.\<close>

datatype recv_result = Recv_ok string | Recv_fail int

text \<open>What a \<open>send\<close> call returns: the number of bytes taken, or -1 with \<open>errno\<close>.\<close>

datatype send_result = Send_ok nat | Send_fail int

text \<open>What the calls of \<open>main\<close> return: a non-negative value, or -1 with \<open>errno\<close>.\<close>

datatype sys_result = Sys_ok nat | Sys_fail int

datatype accept_result = Accepted nat sockaddr_in | Accept_fail int

text \<open>
  The calls a run makes, in order. \<open>Recv fd len r\<close> is \<open>recv(fd, buf, len, 0)\<close> with its
  result; \<open>Send fd bs r\<close> is \<open>send\<close> offered the bytes \<open>bs\<close>; \<open>Log s\<close> is a call of
  \<open>log(s)\<close>; \<open>Cerr s\<close> is text written to \<open>std::cerr\<close>; \<open>Spawn fd a\<close> is the detached
  thread started on \<open>handle_client(fd, a)\<close>.
\<close>

datatype event =
    Recv int nat recv_result
  | Send int string send_result
  | Close int
  | Log string
  | Cerr string
  | Socket sys_result
  | Setsockopt int sys_result
  | Bind int sockaddr_in sys_result
  | Listen int sys_result
  | Accept int accept_result
  | Spawn int sockaddr_in

text \<open>The three ways \<open>handle_client\<close> leaves its loop.\<close>

datatype exit_path = Peer_closed | Recv_failed | Send_failed

datatype status = Exited exit_path | Blocked

subsection \<open>Library functions the source calls\<close>

text \<open>\<open>EINTR\<close> of the header \<open>cerrno\<close>; 4 on Linux, the platform the source names.\<close>

definition EINTR :: int where
  "EINTR = 4"

text \<open>The decimal digit for a value below ten.\<close>

definition digit_char :: "nat \<Rightarrow> char" where
  "digit_char d = ''0123456789'' ! d"

fun dec :: "nat \<Rightarrow> string" where
  "dec n = (if n < 10 then [digit_char n] else dec (n div 10) @ [digit_char (n mod 10)])"

declare dec.simps [simp del]

text \<open>\<open>std::to_string(int)\<close>.\<close>

definition to_string :: "int \<Rightarrow> string" where
  "to_string i = (if i < 0 then CHR ''-'' # dec (nat (- i)) else dec (nat i))"

text \<open>\<open>ntohs\<close>: the value of two octets in network byte order.\<close>

definition ntohs :: "8 word \<times> 8 word \<Rightarrow> int" where
  "ntohs p = int (256 * unat (fst p) + unat (snd p))"

text \<open>\<open>htons\<close> of an \<open>int\<close>: converted to 16 bits, most significant octet first.\<close>

definition htons :: "int \<Rightarrow> 8 word \<times> 8 word" where
  "htons p = (word_of_int ((p mod 65536) div 256), word_of_int (p mod 256))"

text \<open>\<open>inet_ntop(AF_INET, ...)\<close>: the octets in decimal, separated by dots.\<close>

fun dotted :: "8 word list \<Rightarrow> string" where
  "dotted [] = []"
| "dotted [b] = dec (unat b)"
| "dotted (b # bs) = dec (unat b) @ CHR ''.'' # dotted bs"

definition inet_ntop :: "8 word list \<Rightarrow> string" where
  "inet_ntop a = dotted a"

text \<open>
  The broken-down local time that \<open>std::localtime\<close> returns (none of its fields is
  negative), and what \<open>std::put_time\<close> prints for the format \<open>%F %T\<close>:
  \<open>%Y-%m-%d %H:%M:%S\<close>, the year in decimal and every other field in decimal too, with
  a leading zero when it is below ten.
\<close>

record tm =
  tm_year :: nat
  tm_mon :: nat
  tm_mday :: nat
  tm_hour :: nat
  tm_min :: nat
  tm_sec :: nat

definition two :: "nat \<Rightarrow> string" where
  "two n = (if n < 10 then CHR ''0'' # dec n else dec n)"

definition put_time :: "tm \<Rightarrow> string" where
  "put_time t =
     dec (1900 + tm_year t) @ ''-'' @ two (tm_mon t + 1) @ ''-'' @ two (tm_mday t) @ '' '' @
     two (tm_hour t) @ '':'' @ two (tm_min t) @ '':'' @ two (tm_sec t)"

subsection \<open>\<open>log\<close>\<close>

text \<open>
  Lines 21 to 25. \<open>log(s)\<close> makes five insertions into \<open>std::cout\<close>, one after the
  other; these are the five texts, for the clock reading \<open>now\<close>. Nothing ties them
  together: \<open>std::cout\<close> is shared by all the threads and \<open>log\<close> takes no lock, so the
  insertions of another thread can come in between any two of them.
\<close>

definition log :: "tm \<Rightarrow> string \<Rightarrow> string list" where
  "log now s = [''['', put_time now, ''] '', s, [CHR 0x0A]]"

subsection \<open>\<open>handle_client\<close>\<close>

definition BUF_SZ :: nat where
  "BUF_SZ = 4096"

text \<open>How the inner loop \<open>while (sent < n)\<close> ends: the chunk is flushed (with the
  \<open>send\<close> results not yet consumed), a \<open>send\<close> failed with this \<open>errno\<close>, or the
  script is used up and the loop is still running.\<close>

datatype send_outcome = Send_done "send_result list" | Send_error int | Send_pending

text \<open>
  Lines 40 to 49. \<open>buf\<close> is the buffer, \<open>n\<close> the number of bytes \<open>recv\<close> returned,
  \<open>sent\<close> the offset; each call offers \<open>buf.data() + sent\<close>, \<open>n - sent\<close> bytes long.
  \<open>Send_fail e\<close> is the branch \<open>s < 0\<close>, \<open>Send_ok s\<close> the addition \<open>sent += s\<close>.
  The two \<open>ssize_t\<close> are integers here: \<open>n\<close> is at most 4096, and \<open>sent\<close> grows by
  what \<open>send\<close> returned, which is at most \<open>n - sent\<close>.
\<close>

fun send_loop :: "int \<Rightarrow> string \<Rightarrow> int \<Rightarrow> int \<Rightarrow> send_result list \<Rightarrow> event list \<times> send_outcome" where
  "send_loop fd buf n sent [] =
     (if sent < n then ([], Send_pending) else ([], Send_done []))"
| "send_loop fd buf n sent (r # ss) =
     (if sent < n then
        (let ev = Send fd (take (nat (n - sent)) (drop (nat sent) buf)) r in
         case r of
           Send_fail e \<Rightarrow> ([ev], Send_error e)
         | Send_ok s \<Rightarrow>
             (let (t, out) = send_loop fd buf n (sent + int s) ss in (ev # t, out)))
      else ([], Send_done (r # ss)))"

text \<open>
  Lines 36 to 60, the loop \<open>while (true)\<close>. A \<open>recv\<close> that delivers bytes is the
  branch \<open>n > 0\<close>: the bytes are at the start of the buffer, and the inner loop runs on
  them. \<open>Recv_ok []\<close> is the branch \<open>n == 0\<close>, and \<open>Recv_fail e\<close> the last branch, with
  \<open>errno\<close> equal to \<open>e\<close>. \<open>strerror\<close> is \<open>std::strerror\<close>, and \<open>peer\<close> the text
  \<open>ip:port\<close> of the client. The result says how the loop was left: by \<open>break\<close>
  (\<open>Exited Peer_closed\<close>, \<open>Exited Recv_failed\<close>: the \<open>close\<close> of line 62 is still to
  come) or by the \<open>return\<close> of line 46 (\<open>Exited Send_failed\<close>: the connection is closed
  already).
\<close>

fun echo_loop ::
  "(int \<Rightarrow> string) \<Rightarrow> int \<Rightarrow> string \<Rightarrow> string \<Rightarrow> recv_result list \<Rightarrow> send_result list
     \<Rightarrow> event list \<times> status" where
  "echo_loop strerror fd peer buf [] ss = ([], Blocked)"
| "echo_loop strerror fd peer buf (Recv_ok (b # bs) # rs) ss =
     (let buf' = (b # bs) @ drop (length (b # bs)) buf;
          n = int (length (b # bs));
          ev = Recv fd BUF_SZ (Recv_ok (b # bs)) in
      case send_loop fd buf' n 0 ss of
        (t, Send_done ss') \<Rightarrow>
          (let (t', st) = echo_loop strerror fd peer buf' rs ss' in (ev # t @ t', st))
      | (t, Send_error e) \<Rightarrow>
          (ev # t @ [Log (''Error in send(): '' @ strerror e), Close fd], Exited Send_failed)
      | (t, Send_pending) \<Rightarrow> (ev # t, Blocked))"
| "echo_loop strerror fd peer buf (Recv_ok [] # rs) ss =
     ([Recv fd BUF_SZ (Recv_ok []), Log (''Client disconnected: '' @ peer)], Exited Peer_closed)"
| "echo_loop strerror fd peer buf (Recv_fail e # rs) ss =
     (if e = EINTR then
        (let (t, st) = echo_loop strerror fd peer buf rs ss in (Recv fd BUF_SZ (Recv_fail e) # t, st))
      else
        ([Recv fd BUF_SZ (Recv_fail e), Log (''Error in recv(): '' @ strerror e)], Exited Recv_failed))"

text \<open>Lines 27 to 63. The buffer starts as 4096 zero bytes.\<close>

definition handle_client ::
  "(int \<Rightarrow> string) \<Rightarrow> int \<Rightarrow> sockaddr_in \<Rightarrow> recv_result list \<Rightarrow> send_result list
     \<Rightarrow> event list \<times> status" where
  "handle_client strerror client_fd client_addr rs ss =
     (let addr_str = inet_ntop (sin_addr client_addr);
          client_port = ntohs (sin_port client_addr);
          peer = addr_str @ '':'' @ to_string client_port;
          buf = replicate BUF_SZ (CHR 0x00);
          (t, st) = echo_loop strerror client_fd peer buf rs ss
      in case st of
           Exited Send_failed \<Rightarrow> (Log (''Connected: '' @ peer) # t, st)
         | Exited _ \<Rightarrow> (Log (''Connected: '' @ peer) # t @ [Close client_fd], st)
         | Blocked \<Rightarrow> (Log (''Connected: '' @ peer) # t, st))"

subsection \<open>\<open>main\<close>\<close>

text \<open>The results of the four calls that set the listening socket up.\<close>

record startup =
  socket_r :: sys_result
  setsockopt_r :: sys_result
  bind_r :: sys_result
  listen_r :: sys_result

text \<open>How the process ends: \<open>return\<close> from \<open>main\<close> with a code, the uncaught exception
  of \<open>std::stoi\<close>, or still waiting in \<open>accept\<close> when the script is used up.\<close>

datatype proc_status = Exit int | Uncaught | Accepting

datatype loop_end = Broke | Waiting

text \<open>Lines 103 to 116, the loop \<open>while (true)\<close> around \<open>accept\<close>.\<close>

fun accept_loop :: "(int \<Rightarrow> string) \<Rightarrow> int \<Rightarrow> accept_result list \<Rightarrow> event list \<times> loop_end" where
  "accept_loop strerror listen_fd [] = ([], Waiting)"
| "accept_loop strerror listen_fd (Accepted client_fd client_addr # rs) =
     (let (t, e) = accept_loop strerror listen_fd rs in
      (Accept listen_fd (Accepted client_fd client_addr) # Spawn (int client_fd) client_addr # t, e))"
| "accept_loop strerror listen_fd (Accept_fail e # rs) =
     (if e = EINTR then
        (let (t, l) = accept_loop strerror listen_fd rs in (Accept listen_fd (Accept_fail e) # t, l))
      else
        ([Accept listen_fd (Accept_fail e),
          Cerr (''accept() failed: '' @ strerror e @ [CHR 0x0A])], Broke))"

text \<open>
  Lines 65 to 119. \<open>stoi\<close> is \<open>std::stoi\<close>, \<open>None\<close> where it throws; \<open>argv\<close> holds
  the program name and the arguments, so \<open>argc\<close> is its length.
\<close>

definition main ::
  "(string \<Rightarrow> int option) \<Rightarrow> (int \<Rightarrow> string) \<Rightarrow> string list \<Rightarrow> startup \<Rightarrow> accept_result list
     \<Rightarrow> event list \<times> proc_status" where
  "main stoi strerror argv su rs =
     (case (if length argv \<ge> 2 then stoi (argv ! 1) else Some 8080) of
        None \<Rightarrow> ([], Uncaught)
      | Some port \<Rightarrow>
     (case socket_r su of
        Sys_fail e \<Rightarrow>
          ([Socket (Sys_fail e), Cerr (''socket() failed: '' @ strerror e @ [CHR 0x0A])], Exit 1)
      | Sys_ok fd \<Rightarrow>
     (let listen_fd = int fd; t1 = [Socket (Sys_ok fd)] in
      case setsockopt_r su of
        Sys_fail e \<Rightarrow>
          (t1 @ [Setsockopt listen_fd (Sys_fail e),
                 Cerr (''setsockopt() failed: '' @ strerror e @ [CHR 0x0A]),
                 Close listen_fd], Exit 1)
      | Sys_ok v2 \<Rightarrow>
     (let srv_addr = \<lparr>sin_port = htons port, sin_addr = [0, 0, 0, 0]\<rparr>;
          t2 = t1 @ [Setsockopt listen_fd (Sys_ok v2)] in
      case bind_r su of
        Sys_fail e \<Rightarrow>
          (t2 @ [Bind listen_fd srv_addr (Sys_fail e),
                 Cerr (''bind() failed: '' @ strerror e @ [CHR 0x0A]),
                 Close listen_fd], Exit 1)
      | Sys_ok v3 \<Rightarrow>
     (let t3 = t2 @ [Bind listen_fd srv_addr (Sys_ok v3)] in
      case listen_r su of
        Sys_fail e \<Rightarrow>
          (t3 @ [Listen listen_fd (Sys_fail e),
                 Cerr (''listen() failed: '' @ strerror e @ [CHR 0x0A]),
                 Close listen_fd], Exit 1)
      | Sys_ok v4 \<Rightarrow>
     (let t4 = t3 @ [Listen listen_fd (Sys_ok v4), Log (''Listening on port '' @ to_string port)] in
      case accept_loop strerror listen_fd rs of
        (t, Broke) \<Rightarrow> (t4 @ t @ [Close listen_fd], Exit 0)
      | (t, Waiting) \<Rightarrow> (t4 @ t, Accepting)))))))"

subsection \<open>What a run writes\<close>

text \<open>
  The text each reporting call of a trace writes, in order: for a \<open>Log\<close> event the
  five insertions of that call of \<open>log\<close> put together, with the clock read at that call
  (\<open>clock k\<close> is the local time at the \<open>k\<close>-th call of \<open>log\<close> of the thread), and
  for a \<open>Cerr\<close> event the text itself (only \<open>main\<close> writes to \<open>std::cerr\<close>).
\<close>

fun reports :: "(nat \<Rightarrow> tm) \<Rightarrow> nat \<Rightarrow> event list \<Rightarrow> string list" where
  "reports clock k [] = []"
| "reports clock k (Log s # t) = concat (log (clock k) s) # reports clock (Suc k) t"
| "reports clock k (Cerr s # t) = s # reports clock k t"
| "reports clock k (_ # t) = reports clock k t"

text \<open>The insertions into \<open>std::cout\<close> that the thread running a trace makes, one by
  one, in order.\<close>

fun cout_insertions :: "(nat \<Rightarrow> tm) \<Rightarrow> nat \<Rightarrow> event list \<Rightarrow> string list" where
  "cout_insertions clock k [] = []"
| "cout_insertions clock k (Log s # t) = log (clock k) s @ cout_insertions clock (Suc k) t"
| "cout_insertions clock k (_ # t) = cout_insertions clock k t"

text \<open>
  What arrives on a stream into which two threads insert: the insertions of the two,
  each thread's in its own order, merged as the schedule says (\<open>True\<close>: the next
  insertion is the first thread's). Every insertion is taken to arrive in one piece,
  which is the most that can be hoped for.
\<close>

fun interleave :: "bool list \<Rightarrow> 'a list \<Rightarrow> 'a list \<Rightarrow> 'a list" where
  "interleave (True # sch) (x # xs) ys = x # interleave sch xs ys"
| "interleave (False # sch) xs (y # ys) = y # interleave sch xs ys"
| "interleave sch xs ys = xs @ ys"

text \<open>The lines of a text, each with the newline that ends it.\<close>

fun lines_of :: "string \<Rightarrow> string list" where
  "lines_of [] = []"
| "lines_of (c # cs) =
     (if c = CHR 0x0A then [c] # lines_of cs
      else (case lines_of cs of [] \<Rightarrow> [[c]] | l # ls \<Rightarrow> (c # l) # ls))"

subsection \<open>The loops with what follows them\<close>

text \<open>
  The loop of \<open>handle_client\<close> together with what follows it: line 62 runs after a
  \<open>break\<close>, and nothing runs after the \<open>return\<close> of line 46. \<open>handle_client\<close> is the
  first \<open>log\<close> followed by \<open>echo_run\<close> (lemma \<open>handle_client_eq\<close>).
\<close>

fun after_loop :: "int \<Rightarrow> status \<Rightarrow> event list" where
  "after_loop fd (Exited Send_failed) = []"
| "after_loop fd (Exited p) = [Close fd]"
| "after_loop fd Blocked = []"

definition echo_run ::
  "(int \<Rightarrow> string) \<Rightarrow> int \<Rightarrow> string \<Rightarrow> string \<Rightarrow> recv_result list \<Rightarrow> send_result list
     \<Rightarrow> event list \<times> status" where
  "echo_run strerror fd peer buf rs ss =
     (let (t, st) = echo_loop strerror fd peer buf rs ss in (t @ after_loop fd st, st))"

text \<open>The text \<open>ip:port\<close> that \<open>handle_client\<close> builds from \<open>client_addr\<close>.\<close>

definition peer_name :: "sockaddr_in \<Rightarrow> string" where
  "peer_name a = inet_ntop (sin_addr a) @ '':'' @ to_string (ntohs (sin_port a))"

text \<open>
  The accept loop together with what follows it (lines 118 and 119), and the calls that
  come before it when the set-up succeeds. \<open>main\<close> is the two put together (lemma
  \<open>main_started\<close>).
\<close>

definition accept_run ::
  "(int \<Rightarrow> string) \<Rightarrow> int \<Rightarrow> accept_result list \<Rightarrow> event list \<times> proc_status" where
  "accept_run strerror listen_fd rs =
     (case accept_loop strerror listen_fd rs of
        (t, Broke) \<Rightarrow> (t @ [Close listen_fd], Exit 0)
      | (t, Waiting) \<Rightarrow> (t, Accepting))"

definition startup_trace :: "int \<Rightarrow> nat \<Rightarrow> nat \<Rightarrow> nat \<Rightarrow> nat \<Rightarrow> event list" where
  "startup_trace port fd v2 v3 v4 =
     [Socket (Sys_ok fd), Setsockopt (int fd) (Sys_ok v2),
      Bind (int fd) \<lparr>sin_port = htons port, sin_addr = [0, 0, 0, 0]\<rparr> (Sys_ok v3),
      Listen (int fd) (Sys_ok v4), Log (''Listening on port '' @ to_string port)]"

text \<open>The port \<open>main\<close> takes from its arguments; \<open>None\<close> when \<open>std::stoi\<close> throws.\<close>

definition port_of :: "(string \<Rightarrow> int option) \<Rightarrow> string list \<Rightarrow> int option" where
  "port_of stoi argv = (if length argv \<ge> 2 then stoi (argv ! 1) else Some 8080)"

subsection \<open>Observations on a trace\<close>

text \<open>The bytes \<open>recv\<close> delivered on \<open>fd\<close>, and the bytes \<open>send\<close> took on \<open>fd\<close> (a call
  that returns \<open>s\<close> has taken the first \<open>s\<close> bytes it was offered), in call order.\<close>

fun received :: "int \<Rightarrow> event list \<Rightarrow> string" where
  "received fd [] = []"
| "received fd (Recv fd' len (Recv_ok bs) # t) = (if fd' = fd then bs else []) @ received fd t"
| "received fd (_ # t) = received fd t"

fun written :: "int \<Rightarrow> event list \<Rightarrow> string" where
  "written fd [] = []"
| "written fd (Send fd' bs (Send_ok s) # t) = (if fd' = fd then take s bs else []) @ written fd t"
| "written fd (_ # t) = written fd t"

text \<open>The bytes a script of \<open>recv\<close> results delivers.\<close>

fun delivered :: "recv_result list \<Rightarrow> string" where
  "delivered [] = []"
| "delivered (Recv_ok bs # rs) = bs @ delivered rs"
| "delivered (Recv_fail e # rs) = delivered rs"

fun is_recv :: "int \<Rightarrow> event \<Rightarrow> bool" where
  "is_recv fd (Recv fd' len r) = (fd' = fd)"
| "is_recv fd _ = False"

fun is_send :: "event \<Rightarrow> bool" where
  "is_send (Send fd bs r) = True"
| "is_send _ = False"

fun is_send_ok :: "int \<Rightarrow> event \<Rightarrow> bool" where
  "is_send_ok fd (Send fd' bs (Send_ok s)) = (fd' = fd)"
| "is_send_ok fd _ = False"

fun is_close :: "event \<Rightarrow> bool" where
  "is_close (Close fd) = True"
| "is_close _ = False"

fun is_cerr :: "event \<Rightarrow> bool" where
  "is_cerr (Cerr s) = True"
| "is_cerr _ = False"

fun is_accept :: "event \<Rightarrow> bool" where
  "is_accept (Accept fd r) = True"
| "is_accept _ = False"

fun is_accept_on :: "int \<Rightarrow> event \<Rightarrow> bool" where
  "is_accept_on fd (Accept fd' r) = (fd' = fd)"
| "is_accept_on fd _ = False"

text \<open>The \<open>close\<close> calls a handler on \<open>fd\<close> is to have made when it ends with the given
  status.\<close>

fun closes_for :: "int \<Rightarrow> status \<Rightarrow> event list" where
  "closes_for fd (Exited p) = [Close fd]"
| "closes_for fd Blocked = []"

text \<open>\<open>all_tails P t\<close>: \<open>P ev post\<close> holds for every event \<open>ev\<close> of \<open>t\<close> and the events
  \<open>post\<close> that follow it.\<close>

fun all_tails :: "(event \<Rightarrow> event list \<Rightarrow> bool) \<Rightarrow> event list \<Rightarrow> bool" where
  "all_tails P [] = True"
| "all_tails P (ev # t) = (P ev t \<and> all_tails P t)"

subsection \<open>Conditions on the results of the system calls\<close>

text \<open>\<open>recv\<close> never returns more than the length it was given.\<close>

fun recv_fits :: "recv_result \<Rightarrow> bool" where
  "recv_fits (Recv_ok bs) = (length bs \<le> BUF_SZ)"
| "recv_fits (Recv_fail e) = True"

text \<open>A \<open>recv\<close> that does not end the loop with an error.\<close>

fun recv_nonfatal :: "recv_result \<Rightarrow> bool" where
  "recv_nonfatal (Recv_ok bs) = True"
| "recv_nonfatal (Recv_fail e) = (e = EINTR)"

text \<open>A \<open>send\<close> that takes at least one byte, and a \<open>send\<close> that returns a negative or
  a positive value.\<close>

fun progressing :: "send_result \<Rightarrow> bool" where
  "progressing (Send_ok s) = (0 < s)"
| "progressing (Send_fail e) = False"

fun nonzero :: "send_result \<Rightarrow> bool" where
  "nonzero (Send_ok s) = (s \<noteq> 0)"
| "nonzero (Send_fail e) = True"

text \<open>One of the four set-up calls failed; an \<open>accept\<close> that failed other than by
  \<open>EINTR\<close>.\<close>

fun failed :: "sys_result \<Rightarrow> bool" where
  "failed (Sys_fail e) = True"
| "failed (Sys_ok v) = False"

definition startup_failed :: "startup \<Rightarrow> bool" where
  "startup_failed su =
     (failed (socket_r su) \<or> failed (setsockopt_r su) \<or> failed (bind_r su) \<or> failed (listen_r su))"

fun fatal_accept :: "accept_result \<Rightarrow> bool" where
  "fatal_accept (Accept_fail e) = (e \<noteq> EINTR)"
| "fatal_accept (Accepted fd a) = False"

text \<open>A script of \<open>recv\<close> results, and a trace of the handler, without the calls that
  \<open>EINTR\<close> interrupted; the same for \<open>accept\<close>.\<close>

definition uninterrupted :: "recv_result list \<Rightarrow> recv_result list" where
  "uninterrupted rs = filter (\<lambda>r. r \<noteq> Recv_fail EINTR) rs"

definition without_interrupts :: "int \<Rightarrow> event list \<Rightarrow> event list" where
  "without_interrupts fd t = filter (\<lambda>ev. ev \<noteq> Recv fd BUF_SZ (Recv_fail EINTR)) t"

definition uninterrupted_accepts :: "accept_result list \<Rightarrow> accept_result list" where
  "uninterrupted_accepts rs = filter (\<lambda>r. r \<noteq> Accept_fail EINTR) rs"

definition without_accept_interrupts :: "int \<Rightarrow> event list \<Rightarrow> event list" where
  "without_accept_interrupts fd t = filter (\<lambda>ev. ev \<noteq> Accept fd (Accept_fail EINTR)) t"

subsection \<open>The echo discipline\<close>

text \<open>
  A monitor for the calls on connection \<open>fd\<close>. \<open>Flushing p\<close>: the bytes \<open>p\<close> (not
  empty) of the last chunk are still to be sent; \<open>Idle\<close>: nothing is outstanding;
  \<open>Failed\<close>: a \<open>send\<close> has failed. While bytes are outstanding the only call allowed is
  a \<open>send\<close> that offers exactly those bytes; what it takes is dropped from them. A
  \<open>recv\<close> is allowed only when nothing is outstanding, and after a failed \<open>send\<close>
  neither \<open>recv\<close> nor \<open>send\<close> is.
\<close>

datatype flush = Idle | Flushing string | Failed

definition outstanding :: "string \<Rightarrow> flush" where
  "outstanding p = (if p = [] then Idle else Flushing p)"

fun flush_step :: "int \<Rightarrow> flush \<Rightarrow> event \<Rightarrow> flush option" where
  "flush_step fd Idle (Recv fd' len (Recv_ok bs)) = (if fd' = fd then Some (outstanding bs) else None)"
| "flush_step fd Idle (Recv fd' len (Recv_fail e)) = (if fd' = fd then Some Idle else None)"
| "flush_step fd Idle (Send fd' bs r) = None"
| "flush_step fd (Flushing p) (Send fd' bs (Send_ok s)) =
     (if fd' = fd \<and> bs = p then Some (outstanding (drop s p)) else None)"
| "flush_step fd (Flushing p) (Send fd' bs (Send_fail e)) =
     (if fd' = fd \<and> bs = p then Some Failed else None)"
| "flush_step fd (Flushing p) ev = None"
| "flush_step fd Failed (Recv fd' len r) = None"
| "flush_step fd Failed (Send fd' bs r) = None"
| "flush_step fd st ev = Some st"

fun flush_run :: "int \<Rightarrow> flush \<Rightarrow> event list \<Rightarrow> flush option" where
  "flush_run fd st [] = Some st"
| "flush_run fd st (ev # t) =
     (case flush_step fd st ev of None \<Rightarrow> None | Some st' \<Rightarrow> flush_run fd st' t)"

fun is_flushing :: "flush \<Rightarrow> bool" where
  "is_flushing (Flushing p) = True"
| "is_flushing _ = False"

text \<open>The state the monitor may be in when a run ends the given way.\<close>

fun final_ok :: "status \<Rightarrow> flush \<Rightarrow> bool" where
  "final_ok (Exited Send_failed) f = (f = Failed)"
| "final_ok (Exited p) f = (f = Idle)"
| "final_ok Blocked f = (f \<noteq> Failed)"

subsection \<open>What follows an error or a close\<close>

text \<open>
  What must follow an event in a trace of the handler on \<open>fd\<close> that ends with status
  \<open>st\<close>: after a \<open>recv\<close> that returned 0, the disconnect line and the \<open>close\<close>, and
  nothing else; after a \<open>recv\<close> that failed with \<open>EINTR\<close>, another \<open>recv\<close> (or
  nothing yet, the handler being about to call it); after a \<open>recv\<close> that failed
  otherwise, and after a \<open>send\<close> that failed, the error line and the \<open>close\<close>, and
  nothing else. \<open>peer\<close> is the text \<open>ip:port\<close>.
\<close>

fun follows :: "(int \<Rightarrow> string) \<Rightarrow> int \<Rightarrow> string \<Rightarrow> status \<Rightarrow> event \<Rightarrow> event list \<Rightarrow> bool" where
  "follows se fd peer st (Recv fd' len (Recv_ok [])) post =
     (fd' = fd \<and> post = [Log (''Client disconnected: '' @ peer), Close fd] \<and> st = Exited Peer_closed)"
| "follows se fd peer st (Recv fd' len (Recv_fail e)) post =
     (fd' = fd \<and>
      (if e = EINTR then (post = [] \<and> st = Blocked) \<or> (post \<noteq> [] \<and> is_recv fd (hd post))
       else post = [Log (''Error in recv(): '' @ se e), Close fd] \<and> st = Exited Recv_failed))"
| "follows se fd peer st (Send fd' bs (Send_fail e)) post =
     (fd' = fd \<and> post = [Log (''Error in send(): '' @ se e), Close fd] \<and> st = Exited Send_failed)"
| "follows se fd peer st ev post = True"

text \<open>
  What must follow an \<open>accept\<close> in a trace of \<open>main\<close> that ends with status \<open>st\<close>:
  after one that failed with \<open>EINTR\<close>, another \<open>accept\<close> on the listening socket (or
  nothing yet); after one that failed otherwise, the line on \<open>std::cerr\<close> and the
  \<open>close\<close> of the listening socket, and nothing else; after one that succeeded, the
  thread started on the descriptor and the address it returned.
\<close>

fun follows_accept :: "(int \<Rightarrow> string) \<Rightarrow> int \<Rightarrow> proc_status \<Rightarrow> event \<Rightarrow> event list \<Rightarrow> bool" where
  "follows_accept se lfd st (Accept fd' (Accept_fail e)) post =
     (fd' = lfd \<and>
      (if e = EINTR then (post = [] \<and> st = Accepting) \<or> (post \<noteq> [] \<and> is_accept_on lfd (hd post))
       else post = [Cerr (''accept() failed: '' @ se e @ [CHR 0x0A]), Close lfd] \<and> st = Exit 0))"
| "follows_accept se lfd st (Accept fd' (Accepted cfd a)) post =
     (fd' = lfd \<and> post \<noteq> [] \<and> hd post = Spawn (int cfd) a)"
| "follows_accept se lfd st ev post = True"

subsection \<open>The form of a timestamped line\<close>

text \<open>The shape of a line: \<open>d\<close> in the pattern stands for a decimal digit, every other
  character for itself; the line may go on after the pattern.\<close>

fun shaped :: "string \<Rightarrow> string \<Rightarrow> bool" where
  "shaped [] cs = True"
| "shaped (p # ps) [] = False"
| "shaped (p # ps) (c # cs) =
     ((if p = CHR ''d'' then c \<in> set ''0123456789'' else c = p) \<and> shaped ps cs)"

definition timestamped :: "string \<Rightarrow> bool" where
  "timestamped l = shaped ''[dddd-dd-dd dd:dd:dd] '' l"

text \<open>A clock reading as \<open>std::localtime\<close> returns it, in a year of four digits: the
  month from 0 to 11, the day from 1 to 31, the hour up to 23, the minute up to 59 and
  the second up to 60.\<close>

definition calendar_time :: "tm \<Rightarrow> bool" where
  "calendar_time t =
     (1000 \<le> 1900 + tm_year t \<and> 1900 + tm_year t \<le> 9999 \<and> tm_mon t \<le> 11 \<and>
      1 \<le> tm_mday t \<and> tm_mday t \<le> 31 \<and> tm_hour t \<le> 23 \<and> tm_min t \<le> 59 \<and> tm_sec t \<le> 60)"

subsection \<open>Concrete inputs\<close>

text \<open>
  A connection from 192.168.0.7, port 50000. In \<open>demo_recvs\<close> the client sends
  \<open>hello\<close> and \<open>world\<close> and then closes, and the second \<open>recv\<close> is interrupted by a
  signal (\<open>EINTR\<close>, 4); in \<open>demo_recvs_reset\<close> the peer resets the connection after
  the first chunk (\<open>ECONNRESET\<close>, 104 on Linux). In \<open>demo_sends\<close> the first chunk goes
  out in two \<open>send\<close> calls; in \<open>demo_sends_eintr\<close> the second \<open>send\<close> takes nothing
  and the third is interrupted by a signal.
\<close>

definition demo_strerror :: "int \<Rightarrow> string" where
  "demo_strerror e = ''errno '' @ to_string e"

definition demo_addr :: sockaddr_in where
  "demo_addr = \<lparr>sin_port = (0xC3, 0x50), sin_addr = [192, 168, 0, 7]\<rparr>"

definition demo_recvs :: "recv_result list" where
  "demo_recvs = [Recv_ok ''hello'', Recv_fail 4, Recv_ok ''world'', Recv_ok []]"

definition demo_recvs_reset :: "recv_result list" where
  "demo_recvs_reset = [Recv_ok ''hello'', Recv_fail 104]"

definition demo_sends :: "send_result list" where
  "demo_sends = [Send_ok 2, Send_ok 3, Send_ok 5, Send_ok 1, Send_ok 1, Send_ok 1, Send_ok 1,
                 Send_ok 1, Send_ok 1, Send_ok 1]"

definition demo_sends_eintr :: "send_result list" where
  "demo_sends_eintr = [Send_ok 2, Send_ok 0, Send_fail 4]"

text \<open>A start on the default port in which everything succeeds, a first \<open>accept\<close> is
  interrupted, a client is accepted, and then \<open>accept\<close> fails with \<open>EBADF\<close> (9 on
  Linux); and a start on port 9000 in which \<open>bind\<close> fails with \<open>EADDRINUSE\<close> (98).\<close>

definition demo_stoi :: "string \<Rightarrow> int option" where
  "demo_stoi s = (if s = ''9000'' then Some 9000 else None)"

definition demo_startup :: startup where
  "demo_startup = \<lparr>socket_r = Sys_ok 3, setsockopt_r = Sys_ok 0, bind_r = Sys_ok 0, listen_r = Sys_ok 0\<rparr>"

definition demo_startup_inuse :: startup where
  "demo_startup_inuse =
     \<lparr>socket_r = Sys_ok 3, setsockopt_r = Sys_ok 0, bind_r = Sys_fail 98, listen_r = Sys_ok 0\<rparr>"

definition demo_accepts :: "accept_result list" where
  "demo_accepts = [Accept_fail 4, Accepted 5 demo_addr, Accept_fail 9]"

text \<open>A second connection, from port 50001, on which nothing has arrived yet.\<close>

definition demo_addr2 :: sockaddr_in where
  "demo_addr2 = \<lparr>sin_port = (0xC3, 0x51), sin_addr = [192, 168, 0, 7]\<rparr>"

definition demo_clock :: "nat \<Rightarrow> tm" where
  "demo_clock k = \<lparr>tm_year = 125, tm_mon = 0, tm_mday = 5, tm_hour = 9, tm_min = 3, tm_sec = k mod 60\<rparr>"

section \<open>Properties\<close>

subsection \<open>Traces and the monitor\<close>

lemma received_append: "received fd (t @ u) = received fd t @ received fd u"
  by (induction fd t rule: received.induct) simp_all

lemma written_append: "written fd (t @ u) = written fd t @ written fd u"
  by (induction fd t rule: written.induct) simp_all

lemma flush_run_append:
  "flush_run fd st (t @ u) = (case flush_run fd st t of None \<Rightarrow> None | Some st' \<Rightarrow> flush_run fd st' u)"
  by (induction t arbitrary: st) (simp_all split: option.splits)

text \<open>The monitor does reject: a \<open>recv\<close> before the chunk is flushed, bytes sent twice,
  bytes left out, and a \<open>close\<close> with bytes outstanding.\<close>

lemma flush_run_rejects:
  "flush_run 5 Idle [Recv 5 4096 (Recv_ok ''hello''), Send 5 ''hello'' (Send_ok 2),
                     Recv 5 4096 (Recv_ok ''world'')] = None"
  "flush_run 5 Idle [Recv 5 4096 (Recv_ok ''hello''), Send 5 ''hello'' (Send_ok 2),
                     Send 5 ''hello'' (Send_ok 5)] = None"
  "flush_run 5 Idle [Recv 5 4096 (Recv_ok ''hello''), Send 5 ''hello'' (Send_ok 2),
                     Send 5 ''lo'' (Send_ok 2)] = None"
  "flush_run 5 Idle [Recv 5 4096 (Recv_ok ''hello''), Send 5 ''hello'' (Send_ok 2),
                     Close 5] = None"
  by (simp_all add: outstanding_def)

lemma all_tails_iff: "all_tails P t \<longleftrightarrow> (\<forall>pre ev post. t = pre @ ev # post \<longrightarrow> P ev post)"
proof (induction t)
  case Nil
  then show ?case by simp
next
  case (Cons a t)
  show ?case
  proof
    assume h: "all_tails P (a # t)"
    show "\<forall>pre ev post. a # t = pre @ ev # post \<longrightarrow> P ev post"
    proof (intro allI impI)
      fix pre ev post
      assume e: "a # t = pre @ ev # post"
      show "P ev post"
      proof (cases pre)
        case Nil
        with e h show ?thesis by simp
      next
        case (Cons b pre')
        with e have "t = pre' @ ev # post" by simp
        with h Cons.IH show ?thesis by auto
      qed
    qed
  next
    assume h: "\<forall>pre ev post. a # t = pre @ ev # post \<longrightarrow> P ev post"
    have "P a t" using h by (metis append_Nil)
    moreover have "\<forall>pre ev post. t = pre @ ev # post \<longrightarrow> P ev post"
      using h by (metis append_Cons)
    ultimately show "all_tails P (a # t)" using Cons.IH by simp
  qed
qed

subsection \<open>The loop and what follows it\<close>

lemma handle_client_eq:
  "handle_client se fd a rs ss =
     (let (t, st) = echo_run se fd (peer_name a) (replicate BUF_SZ (CHR 0x00)) rs ss
      in (Log (''Connected: '' @ peer_name a) # t, st))"
proof -
  obtain t st where e: "echo_loop se fd (peer_name a) (replicate BUF_SZ (CHR 0x00)) rs ss = (t, st)"
    by (cases "echo_loop se fd (peer_name a) (replicate BUF_SZ (CHR 0x00)) rs ss")
  show ?thesis
  proof (cases st)
    case Blocked
    with e show ?thesis by (simp add: handle_client_def echo_run_def peer_name_def Let_def)
  next
    case (Exited p)
    with e show ?thesis
      by (cases p) (simp_all add: handle_client_def echo_run_def peer_name_def Let_def)
  qed
qed

lemma echo_run_Nil: "echo_run se fd peer buf [] ss = ([], Blocked)"
  by (simp add: echo_run_def)

lemma echo_run_eof:
  "echo_run se fd peer buf (Recv_ok [] # rs) ss =
     ([Recv fd BUF_SZ (Recv_ok []), Log (''Client disconnected: '' @ peer), Close fd], Exited Peer_closed)"
  by (simp add: echo_run_def)

lemma echo_run_fail:
  "echo_run se fd peer buf (Recv_fail e # rs) ss =
     (if e = EINTR then
        (let (t, st) = echo_run se fd peer buf rs ss in (Recv fd BUF_SZ (Recv_fail e) # t, st))
      else ([Recv fd BUF_SZ (Recv_fail e), Log (''Error in recv(): '' @ se e), Close fd],
            Exited Recv_failed))"
  by (simp add: echo_run_def Let_def split: prod.splits)

lemma echo_run_chunk:
  "c \<noteq> [] \<Longrightarrow>
   echo_run se fd peer buf (Recv_ok c # rs) ss =
     (case send_loop fd (c @ drop (length c) buf) (int (length c)) 0 ss of
        (ts, Send_done ss') \<Rightarrow>
          (let (t, st) = echo_run se fd peer (c @ drop (length c) buf) rs ss'
           in (Recv fd BUF_SZ (Recv_ok c) # ts @ t, st))
      | (ts, Send_error e) \<Rightarrow>
          (Recv fd BUF_SZ (Recv_ok c) # ts @ [Log (''Error in send(): '' @ se e), Close fd],
           Exited Send_failed)
      | (ts, Send_pending) \<Rightarrow> (Recv fd BUF_SZ (Recv_ok c) # ts, Blocked))"
  by (cases c) (simp_all add: echo_run_def Let_def split: prod.splits send_outcome.splits)

subsection \<open>The inner loop\<close>

text \<open>In \<open>handle_client\<close> the buffer starts with the chunk \<open>c\<close> just received, \<open>n\<close> is
  its length and the offset is a natural number \<open>k\<close>; the loop then offers \<open>drop k c\<close>.\<close>

lemma send_loop_flush:
  "send_loop fd (c @ rest) (int (length c)) (int k) ss = (t, out) \<Longrightarrow>
   (case out of
      Send_done ss' \<Rightarrow> flush_run fd (outstanding (drop k c)) t = Some Idle
    | Send_error e \<Rightarrow> flush_run fd (outstanding (drop k c)) t = Some Failed
    | Send_pending \<Rightarrow> (\<exists>p. p \<noteq> [] \<and> flush_run fd (outstanding (drop k c)) t = Some (Flushing p)))"
proof (induction ss arbitrary: k t out)
  case Nil
  then show ?case by (auto simp: outstanding_def split: if_splits)
next
  case (Cons r ss)
  show ?case
  proof (cases "k < length c")
    case False
    with Cons.prems show ?thesis by (auto simp: outstanding_def)
  next
    case True
    then have off: "take (nat (int (length c) - int k)) (drop (nat (int k)) (c @ rest)) = drop k c"
      by simp
    show ?thesis
    proof (cases r)
      case (Send_fail e)
      with True Cons.prems off show ?thesis
        by (auto simp: outstanding_def)
    next
      case (Send_ok s)
      obtain t' out' where rec: "send_loop fd (c @ rest) (int (length c)) (int (k + s)) ss = (t', out')"
        by (cases "send_loop fd (c @ rest) (int (length c)) (int (k + s)) ss")
      with True Cons.prems off Send_ok
      have t: "t = Send fd (drop k c) (Send_ok s) # t'" and o: "out = out'"
        by (auto simp: Let_def)
      have step: "flush_run fd (outstanding (drop k c)) t = flush_run fd (outstanding (drop (k + s) c)) t'"
        using True by (simp add: t outstanding_def add.commute)
      from Cons.IH [OF rec] show ?thesis unfolding step o .
    qed
  qed
qed

text \<open>What the inner loop does: successful sends, then possibly one that fails.\<close>

lemma send_loop_shape:
  "send_loop fd (c @ rest) (int (length c)) (int k) ss = (t, out) \<Longrightarrow>
   (case out of
      Send_done ss' \<Rightarrow> list_all (is_send_ok fd) t \<and> written fd t = drop k c
    | Send_error e \<Rightarrow> (\<exists>t' bs. t = t' @ [Send fd bs (Send_fail e)] \<and> list_all (is_send_ok fd) t'
                         \<and> prefix (written fd t) (drop k c))
    | Send_pending \<Rightarrow> list_all (is_send_ok fd) t \<and> prefix (written fd t) (drop k c))"
proof (induction ss arbitrary: k t out)
  case Nil
  then show ?case by (auto split: if_splits)
next
  case (Cons r ss)
  show ?case
  proof (cases "k < length c")
    case False
    with Cons.prems show ?thesis by auto
  next
    case True
    then have off: "take (nat (int (length c) - int k)) (drop (nat (int k)) (c @ rest)) = drop k c"
      by simp
    show ?thesis
    proof (cases r)
      case (Send_fail e)
      with True Cons.prems off show ?thesis
        by auto
    next
      case (Send_ok s)
      obtain t' out' where rec: "send_loop fd (c @ rest) (int (length c)) (int (k + s)) ss = (t', out')"
        by (cases "send_loop fd (c @ rest) (int (length c)) (int (k + s)) ss")
      with True Cons.prems off Send_ok
      have t: "t = Send fd (drop k c) (Send_ok s) # t'" and o: "out = out'"
        by (auto simp: Let_def)
      have split: "drop k c = take s (drop k c) @ drop (k + s) c"
        by (metis append_take_drop_id drop_drop add.commute)
      have w: "written fd t = take s (drop k c) @ written fd t'"
        by (simp add: t)
      note ih = Cons.IH [OF rec]
      show ?thesis
      proof (cases out')
        case (Send_done ss')
        with ih have "list_all (is_send_ok fd) t'" "written fd t' = drop (k + s) c" by simp_all
        then show ?thesis using Send_done o t w split by simp
      next
        case (Send_error e)
        with ih obtain t'' bs where a: "t' = t'' @ [Send fd bs (Send_fail e)]"
          "list_all (is_send_ok fd) t''" "prefix (written fd t') (drop (k + s) c)" by auto
        have "t = (Send fd (drop k c) (Send_ok s) # t'') @ [Send fd bs (Send_fail e)]"
          using t a(1) by simp
        moreover have "list_all (is_send_ok fd) (Send fd (drop k c) (Send_ok s) # t'')"
          using a(2) by simp
        moreover have "prefix (written fd t) (drop k c)"
          using a(3) w split by (metis same_prefix_prefix)
        ultimately show ?thesis using Send_error o by (simp del: append_Cons)
      next
        case Send_pending
        with ih have a: "list_all (is_send_ok fd) t'" "prefix (written fd t') (drop (k + s) c)" by simp_all
        have "prefix (written fd t) (drop k c)"
          using a(2) w split by (metis same_prefix_prefix)
        then show ?thesis using Send_pending o t a(1) by simp
      qed
    qed
  qed
qed

text \<open>How much of the script of \<open>send\<close> results the inner loop uses: one result for
  each call, and all of them when it is still running.\<close>

lemma send_loop_consumed:
  "send_loop fd buf n sent ss = (t, out) \<Longrightarrow>
   (case out of
      Send_done ss' \<Rightarrow> (\<exists>us. ss = us @ ss' \<and> length us = length t)
    | Send_error e \<Rightarrow> (\<exists>us ss'. ss = us @ Send_fail e # ss' \<and> length t = Suc (length us))
    | Send_pending \<Rightarrow> length t = length ss)"
proof (induction ss arbitrary: sent t out)
  case Nil
  then show ?case by (auto split: if_splits)
next
  case (Cons r ss)
  show ?case
  proof (cases "sent < n")
    case False
    with Cons.prems show ?thesis by auto
  next
    case True
    show ?thesis
    proof (cases r)
      case (Send_fail e)
      with True Cons.prems show ?thesis by auto
    next
      case (Send_ok s)
      obtain t' out' where rec: "send_loop fd buf n (sent + int s) ss = (t', out')"
        by (cases "send_loop fd buf n (sent + int s) ss")
      with True Cons.prems Send_ok
      have t: "length t = Suc (length t')" and o: "out = out'"
        by (auto simp: Let_def)
      note ih = Cons.IH [OF rec]
      show ?thesis
      proof (cases out')
        case (Send_done ss')
        with ih obtain us where us: "ss = us @ ss'" "length us = length t'" by auto
        have "\<exists>vs. r # ss = vs @ ss' \<and> length vs = length t"
          by (rule exI [of _ "r # us"]) (simp add: us t)
        then show ?thesis using Send_done o by simp
      next
        case (Send_error e)
        with ih obtain us ss' where us: "ss = us @ Send_fail e # ss'" "length t' = Suc (length us)"
          by auto
        have "\<exists>vs ss'. r # ss = vs @ Send_fail e # ss' \<and> length t = Suc (length vs)"
          by (rule exI [of _ "r # us"], rule exI [of _ ss']) (simp add: us t)
        then show ?thesis using Send_error o by simp
      next
        case Send_pending
        with ih t o show ?thesis by simp
      qed
    qed
  qed
qed

text \<open>Every run of the loop is built from seven steps, one for each way an iteration
  can go; a property of all runs is proved by going through them.\<close>

lemma echo_run_induct [consumes 1, case_names blocked eof eintr recv_fail flushed send_fail sending]:
  assumes run: "echo_run se fd peer buf rs ss = (t, st)"
    and blocked: "\<And>ss. P [] ss [] Blocked"
    and eof: "\<And>rs ss. P (Recv_ok [] # rs) ss
                [Recv fd BUF_SZ (Recv_ok []), Log (''Client disconnected: '' @ peer), Close fd]
                (Exited Peer_closed)"
    and eintr: "\<And>rs ss t st. P rs ss t st \<Longrightarrow>
                P (Recv_fail EINTR # rs) ss (Recv fd BUF_SZ (Recv_fail EINTR) # t) st"
    and recv_fail: "\<And>e rs ss. e \<noteq> EINTR \<Longrightarrow>
                P (Recv_fail e # rs) ss
                  [Recv fd BUF_SZ (Recv_fail e), Log (''Error in recv(): '' @ se e), Close fd]
                  (Exited Recv_failed)"
    and flushed: "\<And>c rs us ss ts t st. c \<noteq> [] \<Longrightarrow> list_all (is_send_ok fd) ts \<Longrightarrow>
                written fd ts = c \<Longrightarrow> flush_run fd (Flushing c) ts = Some Idle \<Longrightarrow>
                length us = length ts \<Longrightarrow> P rs ss t st \<Longrightarrow>
                P (Recv_ok c # rs) (us @ ss) (Recv fd BUF_SZ (Recv_ok c) # ts @ t) st"
    and send_fail: "\<And>c rs us ss ts bs e. c \<noteq> [] \<Longrightarrow> list_all (is_send_ok fd) ts \<Longrightarrow>
                prefix (written fd ts) c \<Longrightarrow>
                flush_run fd (Flushing c) (ts @ [Send fd bs (Send_fail e)]) = Some Failed \<Longrightarrow>
                length us = length ts \<Longrightarrow>
                P (Recv_ok c # rs) (us @ Send_fail e # ss)
                  (Recv fd BUF_SZ (Recv_ok c) # ts @
                     [Send fd bs (Send_fail e), Log (''Error in send(): '' @ se e), Close fd])
                  (Exited Send_failed)"
    and sending: "\<And>c rs ss ts p. c \<noteq> [] \<Longrightarrow> list_all (is_send_ok fd) ts \<Longrightarrow>
                prefix (written fd ts) c \<Longrightarrow> p \<noteq> [] \<Longrightarrow>
                flush_run fd (Flushing c) ts = Some (Flushing p) \<Longrightarrow> length ts = length ss \<Longrightarrow>
                P (Recv_ok c # rs) ss (Recv fd BUF_SZ (Recv_ok c) # ts) Blocked"
  shows "P rs ss t st"
  using run
proof (induction rs arbitrary: buf ss t st)
  case Nil
  then show ?case using blocked by (simp add: echo_run_Nil)
next
  case (Cons r rs)
  show ?case
  proof (cases r)
    case (Recv_fail e)
    show ?thesis
    proof (cases "e = EINTR")
      case True
      obtain t' st' where rec: "echo_run se fd peer buf rs ss = (t', st')"
        by (cases "echo_run se fd peer buf rs ss")
      with Cons.prems Recv_fail True
      have "t = Recv fd BUF_SZ (Recv_fail EINTR) # t'" "st = st'"
        by (simp_all add: echo_run_fail)
      with eintr [OF Cons.IH [OF rec]] Recv_fail True show ?thesis by simp
    next
      case False
      with Cons.prems Recv_fail recv_fail [OF False] show ?thesis
        by (simp add: echo_run_fail)
    qed
  next
    case (Recv_ok c)
    show ?thesis
    proof (cases "c = []")
      case True
      with Cons.prems Recv_ok eof show ?thesis by (simp add: echo_run_eof)
    next
      case False
      let ?buf = "c @ drop (length c) buf"
      obtain ts out where sl: "send_loop fd ?buf (int (length c)) (int 0) ss = (ts, out)"
        by (cases "send_loop fd ?buf (int (length c)) (int 0) ss")
      note fl = send_loop_flush [OF sl]
      note sh = send_loop_shape [OF sl]
      note co = send_loop_consumed [OF sl]
      have o: "outstanding (drop 0 c) = Flushing c" using False by (simp add: outstanding_def)
      from sl have sl0: "send_loop fd ?buf (int (length c)) 0 ss = (ts, out)" by simp
      show ?thesis
      proof (cases out)
        case (Send_done ss')
        obtain t' st' where rec: "echo_run se fd peer ?buf rs ss' = (t', st')"
          by (cases "echo_run se fd peer ?buf rs ss'")
        from co Send_done obtain us where us: "ss = us @ ss'" "length us = length ts" by auto
        from Cons.prems Recv_ok False sl0 Send_done rec
        have "t = Recv fd BUF_SZ (Recv_ok c) # ts @ t'" "st = st'"
          by (simp_all add: echo_run_chunk)
        moreover from fl sh Send_done o
        have "list_all (is_send_ok fd) ts" "written fd ts = c" "flush_run fd (Flushing c) ts = Some Idle"
          by simp_all
        ultimately show ?thesis
          using flushed [OF False _ _ _ us(2) Cons.IH [OF rec]] Recv_ok us(1) by simp
      next
        case (Send_error e)
        from sh Send_error obtain ts' bs where a: "ts = ts' @ [Send fd bs (Send_fail e)]"
          "list_all (is_send_ok fd) ts'" "prefix (written fd ts) c" by auto
        from co Send_error obtain us ss' where us: "ss = us @ Send_fail e # ss'"
          "length ts = Suc (length us)" by auto
        from Cons.prems Recv_ok False sl0 Send_error a(1)
        have "t = Recv fd BUF_SZ (Recv_ok c) # ts' @
                    [Send fd bs (Send_fail e), Log (''Error in send(): '' @ se e), Close fd]"
          "st = Exited Send_failed"
          by (simp_all add: echo_run_chunk)
        moreover have "prefix (written fd ts') c"
          using a(1,3) by (simp add: written_append)
        moreover have "flush_run fd (Flushing c) (ts' @ [Send fd bs (Send_fail e)]) = Some Failed"
          using fl Send_error o a(1) by simp
        moreover have "length us = length ts'" using us(2) a(1) by simp
        ultimately show ?thesis
          using send_fail [OF False a(2)] Recv_ok us(1) by simp
      next
        case Send_pending
        from Cons.prems Recv_ok False sl0 Send_pending
        have "t = Recv fd BUF_SZ (Recv_ok c) # ts" "st = Blocked"
          by (simp_all add: echo_run_chunk)
        moreover from fl Send_pending o obtain p where "p \<noteq> []"
          "flush_run fd (Flushing c) ts = Some (Flushing p)" by auto
        moreover from sh Send_pending have "list_all (is_send_ok fd) ts" "prefix (written fd ts) c"
          by simp_all
        moreover from co Send_pending have "length ts = length ss" by simp
        ultimately show ?thesis
          using sending [OF False] Recv_ok by simp
      qed
    qed
  qed
qed

subsection \<open>Echo fidelity\<close>

lemma received_sends: "list_all (is_send_ok fd) ts \<Longrightarrow> received fd' ts = []"
  by (induction ts rule: received.induct) simp_all

lemma echo_run_fidelity:
  assumes "echo_run se fd peer buf rs ss = (t, st)"
  shows "prefix (written fd t) (received fd t) \<and>
         (st = Exited Peer_closed \<or> st = Exited Recv_failed \<longrightarrow> written fd t = received fd t)"
  using assms
proof (induction rule: echo_run_induct)
  case (flushed c rs us ss ts t st)
  then show ?case by (simp add: written_append received_append received_sends)
next
  case (send_fail c rs us ss ts bs e)
  then show ?case by (simp add: written_append received_append received_sends)
next
  case (sending c rs ss ts p)
  then show ?case by (simp add: written_append received_append received_sends)
qed simp_all

text \<open>Sends that all make progress flush a chunk within as many calls as it has bytes.\<close>

lemma send_loop_done:
  "list_all progressing ss \<Longrightarrow> length c - k \<le> length ss \<Longrightarrow>
   \<exists>ts ss'. send_loop fd (c @ rest) (int (length c)) (int k) ss = (ts, Send_done ss') \<and>
            list_all progressing ss' \<and> length ss \<le> length ss' + (length c - k)"
proof (induction ss arbitrary: k)
  case Nil
  then show ?case by simp
next
  case (Cons r ss)
  show ?case
  proof (cases "k < length c")
    case False
    with Cons.prems show ?thesis by simp
  next
    case True
    from Cons.prems obtain s where r: "r = Send_ok s" and s: "0 < s" and p: "list_all progressing ss"
      by (cases r) simp_all
    have "length c - (k + s) \<le> length ss" using Cons.prems(2) True s by simp
    from Cons.IH [OF p this] obtain ts ss' where
      rec: "send_loop fd (c @ rest) (int (length c)) (int (k + s)) ss = (ts, Send_done ss')"
      and p': "list_all progressing ss'" and l: "length ss \<le> length ss' + (length c - (k + s))"
      by blast
    have "send_loop fd (c @ rest) (int (length c)) (int k) (r # ss) =
            (Send fd (drop k c) r # ts, Send_done ss')"
      using True r rec by (simp add: Let_def)
    moreover have "length (r # ss) \<le> length ss' + (length c - k)"
      using l True s by simp
    ultimately show ?thesis using p' by blast
  qed
qed

lemma echo_run_live:
  "list_all progressing ss \<Longrightarrow> length (delivered rs) \<le> length ss \<Longrightarrow>
   Recv_ok [] \<in> set rs \<Longrightarrow> list_all recv_nonfatal rs \<Longrightarrow>
   snd (echo_run se fd peer buf rs ss) = Exited Peer_closed \<and>
   received fd (fst (echo_run se fd peer buf rs ss)) = delivered (takeWhile (\<lambda>r. r \<noteq> Recv_ok []) rs)"
proof (induction rs arbitrary: buf ss)
  case Nil
  then show ?case by simp
next
  case (Cons r rs)
  show ?case
  proof (cases r)
    case (Recv_fail e)
    with Cons.prems have e: "e = EINTR" by simp
    from Cons.prems Recv_fail have "Recv_ok [] \<in> set rs" "list_all recv_nonfatal rs"
      "length (delivered rs) \<le> length ss" by simp_all
    from Cons.IH [OF Cons.prems(1) this(3) this(1) this(2), of buf] Recv_fail e
    show ?thesis by (auto simp: echo_run_fail split: prod.splits)
  next
    case (Recv_ok c)
    show ?thesis
    proof (cases "c = []")
      case True
      with Recv_ok show ?thesis by (simp add: echo_run_eof)
    next
      case False
      let ?buf = "c @ drop (length c) buf"
      from Cons.prems Recv_ok have len: "length c - 0 \<le> length ss" by simp
      from send_loop_done [OF Cons.prems(1) len, of fd "drop (length c) buf"]
      obtain ts ss' where sl: "send_loop fd ?buf (int (length c)) 0 ss = (ts, Send_done ss')"
        and p': "list_all progressing ss'" and l: "length ss \<le> length ss' + (length c - 0)"
        by auto
      have sh: "list_all (is_send_ok fd) ts"
        using send_loop_shape [of fd c "drop (length c) buf" 0 ss ts "Send_done ss'"] sl by simp
      from Cons.prems Recv_ok False l have a: "Recv_ok [] \<in> set rs" "list_all recv_nonfatal rs"
        "length (delivered rs) \<le> length ss'" by auto
      from Cons.IH [OF p' a(3) a(1) a(2), of ?buf] Recv_ok False sl sh
      show ?thesis
        by (auto simp: echo_run_chunk received_append received_sends split: prod.splits)
    qed
  qed
qed

text \<open>
  Claim C1. On a connection \<open>fd\<close>, whatever chunks the successive \<open>recv\<close> calls
  deliver (each at most 4096 bytes long) and however the \<open>send\<close> calls split them:
  the bytes written are at every moment a prefix of the bytes received, in the same
  order; when the handler leaves its loop after a peer close or a \<open>recv\<close> error the
  bytes written are exactly the bytes received; and when every \<open>send\<close> takes at
  least one byte, no \<open>recv\<close> fails other than by \<open>EINTR\<close>, and the peer closes, the
  handler does return, having written exactly the bytes delivered before the close.
\<close>

theorem echo_fidelity:
  assumes "list_all recv_fits rs"
    and "handle_client strerror fd addr rs ss = (t, st)"
  shows "prefix (written fd t) (received fd t) \<and>
         (st = Exited Peer_closed \<or> st = Exited Recv_failed \<longrightarrow> written fd t = received fd t) \<and>
         (list_all progressing ss \<and> length (delivered rs) \<le> length ss \<and>
          Recv_ok [] \<in> set rs \<and> list_all recv_nonfatal rs \<longrightarrow>
            st = Exited Peer_closed \<and>
            written fd t = delivered (takeWhile (\<lambda>r. r \<noteq> Recv_ok []) rs))"
proof -
  let ?buf = "replicate BUF_SZ (CHR 0x00)"
  obtain t' where run: "echo_run strerror fd (peer_name addr) ?buf rs ss = (t', st)"
    and t: "t = Log (''Connected: '' @ peer_name addr) # t'"
    using assms(2) by (auto simp: handle_client_eq Let_def split: prod.splits)
  have wr: "written fd t = written fd t'" "received fd t = received fd t'"
    by (simp_all add: t)
  note safe = echo_run_fidelity [OF run]
  have live: "st = Exited Peer_closed \<and>
            written fd t = delivered (takeWhile (\<lambda>r. r \<noteq> Recv_ok []) rs)"
    if h: "list_all progressing ss \<and> length (delivered rs) \<le> length ss \<and>
          Recv_ok [] \<in> set rs \<and> list_all recv_nonfatal rs"
  proof -
    from h echo_run_live [of ss rs strerror fd "peer_name addr" ?buf] run
    have "st = Exited Peer_closed"
      "received fd t' = delivered (takeWhile (\<lambda>r. r \<noteq> Recv_ok []) rs)" by simp_all
    with safe wr show ?thesis by simp
  qed
  from safe wr live show ?thesis by auto
qed


theorem echo_fidelity_witness:
  "list_all recv_fits demo_recvs \<and>
   list_all progressing demo_sends \<and> length (delivered demo_recvs) \<le> length demo_sends \<and>
   Recv_ok [] \<in> set demo_recvs \<and> list_all recv_nonfatal demo_recvs \<and>
   snd (handle_client demo_strerror 5 demo_addr demo_recvs demo_sends) = Exited Peer_closed \<and>
   written 5 (fst (handle_client demo_strerror 5 demo_addr demo_recvs demo_sends)) = ''helloworld'' \<and>
   received 5 (fst (handle_client demo_strerror 5 demo_addr demo_recvs demo_sends)) = ''helloworld''"
proof -
  have h1: "list_all recv_fits demo_recvs"
    by (simp add: demo_recvs_def BUF_SZ_def)
  have h2: "handle_client demo_strerror 5 demo_addr demo_recvs demo_sends =
              (fst (handle_client demo_strerror 5 demo_addr demo_recvs demo_sends),
               snd (handle_client demo_strerror 5 demo_addr demo_recvs demo_sends))"
    by simp
  have h3: "list_all progressing demo_sends \<and> length (delivered demo_recvs) \<le> length demo_sends \<and>
            Recv_ok [] \<in> set demo_recvs \<and> list_all recv_nonfatal demo_recvs"
    by (simp add: demo_recvs_def demo_sends_def EINTR_def)
  have h4: "delivered (takeWhile (\<lambda>r. r \<noteq> Recv_ok []) demo_recvs) = ''helloworld''"
    by (simp add: demo_recvs_def)
  from echo_fidelity [OF h1 h2] h1 h3 h4 show ?thesis by auto
qed

subsection \<open>A concrete run\<close>

lemma demo_peer: "peer_name demo_addr = ''192.168.0.7:50000''"
  by (simp add: peer_name_def demo_addr_def inet_ntop_def ntohs_def to_string_def dec.simps
      digit_char_def)

lemma demo_run:
  "handle_client demo_strerror 5 demo_addr demo_recvs demo_sends =
     ([Log ''Connected: 192.168.0.7:50000'',
       Recv 5 BUF_SZ (Recv_ok ''hello''),
       Send 5 ''hello'' (Send_ok 2), Send 5 ''llo'' (Send_ok 3),
       Recv 5 BUF_SZ (Recv_fail 4),
       Recv 5 BUF_SZ (Recv_ok ''world''),
       Send 5 ''world'' (Send_ok 5),
       Recv 5 BUF_SZ (Recv_ok []),
       Log ''Client disconnected: 192.168.0.7:50000'', Close 5],
      Exited Peer_closed)"
  by (simp add: handle_client_eq demo_peer demo_recvs_def demo_sends_def echo_run_chunk
      echo_run_fail echo_run_eof EINTR_def Let_def)

subsection \<open>Partial writes\<close>

lemma sends_only: "list_all (is_send_ok fd) ts \<Longrightarrow> filter is_send ts = ts"
  by (induction ts) (auto elim: is_send_ok.elims)

lemma echo_run_flush:
  assumes "echo_run se fd peer buf rs ss = (t, st)"
  shows "\<exists>f. flush_run fd Idle t = Some f \<and> final_ok st f \<and>
             (is_flushing f \<longrightarrow> length (filter is_send t) = length ss)"
  using assms
proof (induction rule: echo_run_induct)
  case (flushed c rs us ss ts t st)
  then show ?case
    by (simp add: flush_run_append outstanding_def sends_only)
next
  case (send_fail c rs us ss ts bs e)
  let ?l = "Log (''Error in send(): '' @ se e)"
  have "ts @ [Send fd bs (Send_fail e), ?l, Close fd] = (ts @ [Send fd bs (Send_fail e)]) @ [?l, Close fd]"
    by simp
  then have "flush_run fd (Flushing c) (ts @ [Send fd bs (Send_fail e), ?l, Close fd]) = Some Failed"
    using send_fail(4) by (simp only: flush_run_append) simp
  with send_fail(1) show ?case
    by (simp add: outstanding_def)
next
  case (sending c rs ss ts p)
  then show ?case
    by (simp add: flush_run_append outstanding_def sends_only)
qed (simp_all add: outstanding_def)

text \<open>
  Claim C2. The calls of every run of the handler on \<open>fd\<close> obey the monitor
  \<open>flush_run\<close>: after a \<open>recv\<close> that delivered a chunk, every call is a \<open>send\<close>
  offering exactly the bytes of the chunk not yet taken (the offset advances by what
  each \<open>send\<close> returned, so nothing is lost and nothing sent twice), until none is
  left or a \<open>send\<close> fails; no \<open>recv\<close>, \<open>log\<close> or \<open>close\<close> comes in between. A
  handler that has returned has either flushed every chunk or had a \<open>send\<close> fail
  (\<open>final_ok\<close>); one that is still running with bytes outstanding has used every
  \<open>send\<close> result of the script, that is, it is inside a further \<open>send\<close>.
\<close>

theorem partial_write_completion:
  assumes "handle_client strerror fd addr rs ss = (t, st)"
  shows "\<exists>f. flush_run fd Idle t = Some f \<and> final_ok st f \<and>
             (is_flushing f \<longrightarrow> length (filter is_send t) = length ss)"
proof -
  obtain t' where run: "echo_run strerror fd (peer_name addr) (replicate BUF_SZ (CHR 0x00)) rs ss = (t', st)"
    and t: "t = Log (''Connected: '' @ peer_name addr) # t'"
    using assms by (auto simp: handle_client_eq Let_def split: prod.splits)
  from echo_run_flush [OF run] show ?thesis by (simp add: t)
qed

theorem partial_write_completion_witness:
  "flush_run 5 Idle (fst (handle_client demo_strerror 5 demo_addr demo_recvs demo_sends)) = Some Idle \<and>
   snd (handle_client demo_strerror 5 demo_addr demo_recvs demo_sends) = Exited Peer_closed"
proof -
  from partial_write_completion [OF demo_run]
  obtain f where f: "flush_run 5 Idle (fst (handle_client demo_strerror 5 demo_addr demo_recvs demo_sends)) = Some f"
    and ok: "final_ok (Exited Peer_closed) f"
    by (auto simp: demo_run)
  from ok have "f = Idle" by simp
  with f show ?thesis by (simp add: demo_run)
qed

subsection \<open>Closing the connection\<close>

lemma sends_no_close: "list_all (is_send_ok fd) ts \<Longrightarrow> filter is_close ts = []"
  by (induction ts) (auto elim: is_send_ok.elims)

lemma echo_run_close:
  assumes "echo_run se fd peer buf rs ss = (t, st)"
  shows "filter is_close t = closes_for fd st \<and> (st \<noteq> Blocked \<longrightarrow> t \<noteq> [] \<and> last t = Close fd)"
  using assms
proof (induction rule: echo_run_induct)
  case (flushed c rs us ss ts t st)
  then show ?case by (simp add: sends_no_close)
next
  case (send_fail c rs us ss ts bs e)
  then show ?case by (simp add: sends_no_close)
next
  case (sending c rs ss ts p)
  then show ?case by (simp add: sends_no_close)
qed simp_all

lemma demo_run_eintr:
  "handle_client demo_strerror 5 demo_addr demo_recvs demo_sends_eintr =
     ([Log ''Connected: 192.168.0.7:50000'',
       Recv 5 BUF_SZ (Recv_ok ''hello''),
       Send 5 ''hello'' (Send_ok 2), Send 5 ''llo'' (Send_ok 0), Send 5 ''llo'' (Send_fail 4),
       Log ''Error in send(): errno 4'', Close 5],
      Exited Send_failed)"
  by (simp add: handle_client_eq demo_peer demo_recvs_def demo_sends_eintr_def echo_run_chunk
      echo_run_fail echo_run_eof EINTR_def Let_def demo_strerror_def to_string_def dec.simps
      digit_char_def)

text \<open>
  Claim C3. In the trace of a handler that has returned, by whichever of the three
  paths (peer close, \<open>recv\<close> error, \<open>send\<close> error), the \<open>close\<close> calls are exactly
  one \<open>close(fd)\<close>, and it is the last call of the run; a handler that has not
  returned has closed nothing.
\<close>

theorem close_exactly_once:
  assumes "handle_client strerror fd addr rs ss = (t, st)"
  shows "filter is_close t = closes_for fd st \<and> (st \<noteq> Blocked \<longrightarrow> last t = Close fd)"
proof -
  obtain t' where run: "echo_run strerror fd (peer_name addr) (replicate BUF_SZ (CHR 0x00)) rs ss = (t', st)"
    and t: "t = Log (''Connected: '' @ peer_name addr) # t'"
    using assms by (auto simp: handle_client_eq Let_def split: prod.splits)
  from echo_run_close [OF run] show ?thesis by (simp add: t)
qed

theorem close_exactly_once_witness:
  "filter is_close (fst (handle_client demo_strerror 5 demo_addr demo_recvs demo_sends)) = [Close 5] \<and>
   last (fst (handle_client demo_strerror 5 demo_addr demo_recvs demo_sends)) = Close 5 \<and>
   filter is_close (fst (handle_client demo_strerror 5 demo_addr demo_recvs demo_sends_eintr)) = [Close 5] \<and>
   last (fst (handle_client demo_strerror 5 demo_addr demo_recvs demo_sends_eintr)) = Close 5"
  using close_exactly_once [OF demo_run] close_exactly_once [OF demo_run_eintr]
  by (simp add: demo_run demo_run_eintr)

subsection \<open>Termination of the inner loop\<close>

lemma send_loop_progress:
  "list_all nonzero ss \<Longrightarrow> nat (n - sent) \<le> length ss \<Longrightarrow>
   snd (send_loop fd buf n sent ss) \<noteq> Send_pending \<and>
   length (fst (send_loop fd buf n sent ss)) \<le> nat (n - sent)"
proof (induction ss arbitrary: sent)
  case Nil
  then show ?case by simp
next
  case (Cons r ss)
  show ?case
  proof (cases "sent < n")
    case False
    then show ?thesis by simp
  next
    case True
    show ?thesis
    proof (cases r)
      case (Send_fail e)
      with True show ?thesis by simp
    next
      case (Send_ok s)
      with Cons.prems have s: "0 < s" and nz: "list_all nonzero ss" by simp_all
      have "nat (n - (sent + int s)) \<le> length ss" using Cons.prems(2) True s by simp
      from Cons.IH [OF nz this] True Send_ok s show ?thesis
        by (auto simp: Let_def split: prod.splits)
    qed
  qed
qed

lemma send_loop_stuck:
  "sent < n \<Longrightarrow>
   send_loop fd buf n sent (replicate k (Send_ok 0)) =
     (replicate k (Send fd (take (nat (n - sent)) (drop (nat sent) buf)) (Send_ok 0)), Send_pending)"
  by (induction k) (simp_all add: Let_def)

text \<open>
  Claim C9. When every \<open>send\<close> returns a negative or a positive value, the inner
  loop started at offset \<open>sent\<close> has ended (flushed or failed) after at most
  \<open>n - sent\<close> calls: each call that does not fail takes at least one of the remaining
  bytes. Without that the loop need not end: when \<open>send\<close> keeps returning 0, the loop
  is still running after any number \<open>k\<close> of calls, and every call has offered the same
  bytes.
\<close>

theorem send_loop_terminates:
  "(list_all nonzero ss \<and> nat (n - sent) \<le> length ss \<longrightarrow>
      snd (send_loop fd buf n sent ss) \<noteq> Send_pending \<and>
      length (fst (send_loop fd buf n sent ss)) \<le> nat (n - sent)) \<and>
   (sent < n \<longrightarrow>
      send_loop fd buf n sent (replicate k (Send_ok 0)) =
        (replicate k (Send fd (take (nat (n - sent)) (drop (nat sent) buf)) (Send_ok 0)),
         Send_pending))"
  using send_loop_progress [of ss n sent fd buf] send_loop_stuck [of sent n fd buf k] by blast

theorem send_loop_terminates_witness:
  "list_all nonzero [Send_ok 2, Send_ok 1, Send_fail 4, Send_ok 1, Send_ok 1] \<and>
   nat (5 - 0) \<le> length [Send_ok 2, Send_ok 1, Send_fail 4, Send_ok 1, Send_ok 1] \<and>
   snd (send_loop 5 ''hello'' 5 0 [Send_ok 2, Send_ok 1, Send_fail 4, Send_ok 1, Send_ok 1]) \<noteq> Send_pending \<and>
   (0::int) < 5 \<and>
   send_loop 5 ''hello'' 5 0 (replicate 3 (Send_ok 0)) =
     (replicate 3 (Send 5 ''hello'' (Send_ok 0)), Send_pending)"
  using send_loop_terminates [of "[Send_ok 2, Send_ok 1, Send_fail 4, Send_ok 1, Send_ok 1]" 5 0 5 "''hello''" 3]
  by simp

subsection \<open>What follows an error or a close\<close>

lemma all_tails_quiet:
  "(\<And>ev post. ev \<in> set xs \<Longrightarrow> F ev post) \<Longrightarrow> all_tails F (xs @ ys) = all_tails F ys"
  by (induction xs) simp_all

lemma follows_send_ok: "is_send_ok fd' ev \<Longrightarrow> follows se fd peer st ev post"
  by (erule is_send_ok.elims) simp_all

lemma all_tails_sends:
  "list_all (is_send_ok fd') ts \<Longrightarrow>
   all_tails (follows se fd peer st) (ts @ t) = all_tails (follows se fd peer st) t"
  by (rule all_tails_quiet) (auto simp: list_all_iff intro: follows_send_ok)

lemma follows_chunk: "c \<noteq> [] \<Longrightarrow> follows se fd peer st (Recv fd' len (Recv_ok c)) post"
  by (cases c) simp_all

lemma echo_run_follows:
  assumes "echo_run se fd peer buf rs ss = (t, st)"
  shows "all_tails (follows se fd peer st) t \<and> (t = [] \<longrightarrow> st = Blocked) \<and>
         (t \<noteq> [] \<longrightarrow> is_recv fd (hd t))"
  using assms
proof (induction rule: echo_run_induct)
  case (flushed c rs us ss ts t st)
  then show ?case by (simp add: all_tails_sends follows_chunk)
next
  case (send_fail c rs us ss ts bs e)
  then show ?case by (simp add: all_tails_sends follows_chunk)
next
  case (sending c rs ss ts p)
  have "all_tails (follows se fd peer Blocked) (ts @ []) = all_tails (follows se fd peer Blocked) []"
    using sending(2) by (rule all_tails_sends)
  with sending show ?case by (simp add: follows_chunk)
qed auto

lemma handle_client_follows:
  assumes "handle_client se fd addr rs ss = (t, st)" and "t = pre @ ev # post"
  shows "follows se fd (peer_name addr) st ev post"
proof -
  obtain t' where run: "echo_run se fd (peer_name addr) (replicate BUF_SZ (CHR 0x00)) rs ss = (t', st)"
    and t: "t = Log (''Connected: '' @ peer_name addr) # t'"
    using assms(1) by (auto simp: handle_client_eq Let_def split: prod.splits)
  from echo_run_follows [OF run] have "all_tails (follows se fd (peer_name addr) st) t"
    by (simp add: t)
  with assms(2) show ?thesis by (simp add: all_tails_iff)
qed

text \<open>
  Claim C10. Wherever a \<open>send\<close> fails in a run of the handler, with whatever
  \<open>errno\<close>, \<open>EINTR\<close> included, the run goes on with the error line and the \<open>close\<close>
  of the connection and nothing else, and the handler has returned: the \<open>send\<close> is
  not retried (a \<open>recv\<close> interrupted by \<open>EINTR\<close> is, claim C4).
\<close>

theorem send_error_is_fatal:
  assumes "handle_client strerror fd addr rs ss = (t, st)"
    and "t = pre @ Send fd' bs (Send_fail e) # post"
  shows "fd' = fd \<and> post = [Log (''Error in send(): '' @ strerror e), Close fd] \<and>
         st = Exited Send_failed"
  using handle_client_follows [OF assms] by simp


theorem send_error_is_fatal_witness:
  "EINTR = 4 \<and>
   fst (handle_client demo_strerror 5 demo_addr demo_recvs demo_sends_eintr) =
     [Log ''Connected: 192.168.0.7:50000'', Recv 5 BUF_SZ (Recv_ok ''hello''),
      Send 5 ''hello'' (Send_ok 2), Send 5 ''llo'' (Send_ok 0)] @
     Send 5 ''llo'' (Send_fail 4) # [Log ''Error in send(): errno 4'', Close 5] \<and>
   [Log ''Error in send(): errno 4'', Close 5] = [Log (''Error in send(): '' @ demo_strerror 4), Close 5] \<and>
   snd (handle_client demo_strerror 5 demo_addr demo_recvs demo_sends_eintr) = Exited Send_failed"
proof -
  have split: "[Log ''Connected: 192.168.0.7:50000'', Recv 5 BUF_SZ (Recv_ok ''hello''),
       Send 5 ''hello'' (Send_ok 2), Send 5 ''llo'' (Send_ok 0), Send 5 ''llo'' (Send_fail 4),
       Log ''Error in send(): errno 4'', Close 5] =
     [Log ''Connected: 192.168.0.7:50000'', Recv 5 BUF_SZ (Recv_ok ''hello''),
      Send 5 ''hello'' (Send_ok 2), Send 5 ''llo'' (Send_ok 0)] @
     Send 5 ''llo'' (Send_fail 4) # [Log ''Error in send(): errno 4'', Close 5]"
    by simp
  from send_error_is_fatal [OF demo_run_eintr split] show ?thesis
    by (simp add: demo_run_eintr EINTR_def)
qed

text \<open>
  Claim C5. Wherever a \<open>recv\<close> returns 0 in a run of the handler, the run goes on
  with the line \<open>Client disconnected: ip:port\<close> and the \<open>close\<close> and nothing else
  (no further \<open>recv\<close> or \<open>send\<close>), and the handler has returned by the peer-close
  path. The address in the line is the one of \<open>client_addr\<close>, the value \<open>accept\<close>
  filled in and \<open>main\<close> passed on, the same as in the \<open>Connected\<close> line that
  starts the run.
\<close>

theorem peer_close_is_terminal:
  assumes "handle_client strerror fd addr rs ss = (t, st)"
    and "t = pre @ Recv fd' len (Recv_ok []) # post"
  shows "post = [Log (''Client disconnected: '' @ inet_ntop (sin_addr addr) @ '':'' @
                        to_string (ntohs (sin_port addr))), Close fd] \<and>
         st = Exited Peer_closed \<and>
         hd t = Log (''Connected: '' @ inet_ntop (sin_addr addr) @ '':'' @
                        to_string (ntohs (sin_port addr)))"
proof -
  have "hd t = Log (''Connected: '' @ peer_name addr)"
    using assms(1) by (auto simp: handle_client_eq Let_def split: prod.splits)
  with handle_client_follows [OF assms] show ?thesis by (simp add: peer_name_def)
qed

theorem peer_close_is_terminal_witness:
  "fst (handle_client demo_strerror 5 demo_addr demo_recvs demo_sends) =
     [Log ''Connected: 192.168.0.7:50000'', Recv 5 BUF_SZ (Recv_ok ''hello''),
      Send 5 ''hello'' (Send_ok 2), Send 5 ''llo'' (Send_ok 3), Recv 5 BUF_SZ (Recv_fail 4),
      Recv 5 BUF_SZ (Recv_ok ''world''), Send 5 ''world'' (Send_ok 5)] @
     Recv 5 BUF_SZ (Recv_ok []) # [Log ''Client disconnected: 192.168.0.7:50000'', Close 5] \<and>
   ''Client disconnected: 192.168.0.7:50000'' =
     ''Client disconnected: '' @ inet_ntop (sin_addr demo_addr) @ '':'' @
        to_string (ntohs (sin_port demo_addr)) \<and>
   snd (handle_client demo_strerror 5 demo_addr demo_recvs demo_sends) = Exited Peer_closed"
proof -
  have split: "[Log ''Connected: 192.168.0.7:50000'',
       Recv 5 BUF_SZ (Recv_ok ''hello''),
       Send 5 ''hello'' (Send_ok 2), Send 5 ''llo'' (Send_ok 3),
       Recv 5 BUF_SZ (Recv_fail 4),
       Recv 5 BUF_SZ (Recv_ok ''world''),
       Send 5 ''world'' (Send_ok 5),
       Recv 5 BUF_SZ (Recv_ok []),
       Log ''Client disconnected: 192.168.0.7:50000'', Close 5] =
     [Log ''Connected: 192.168.0.7:50000'', Recv 5 BUF_SZ (Recv_ok ''hello''),
      Send 5 ''hello'' (Send_ok 2), Send 5 ''llo'' (Send_ok 3), Recv 5 BUF_SZ (Recv_fail 4),
      Recv 5 BUF_SZ (Recv_ok ''world''), Send 5 ''world'' (Send_ok 5)] @
     Recv 5 BUF_SZ (Recv_ok []) # [Log ''Client disconnected: 192.168.0.7:50000'', Close 5]"
    by simp
  from peer_close_is_terminal [OF demo_run split] show ?thesis
    by (simp add: demo_run)
qed

subsection \<open>Errors of \<open>recv\<close>\<close>

lemma without_interrupts_sends:
  "list_all (is_send_ok fd) ts \<Longrightarrow> without_interrupts fd ts = ts"
  unfolding without_interrupts_def by (induction ts) (auto elim: is_send_ok.elims)

lemma without_interrupts_append:
  "without_interrupts fd (t @ u) = without_interrupts fd t @ without_interrupts fd u"
  by (simp add: without_interrupts_def)

lemma without_interrupts_Cons:
  "without_interrupts fd (ev # t) =
     (if ev = Recv fd BUF_SZ (Recv_fail EINTR) then without_interrupts fd t
      else ev # without_interrupts fd t)"
  by (simp add: without_interrupts_def)

lemma without_interrupts_Nil [simp]: "without_interrupts fd [] = []"
  by (simp add: without_interrupts_def)

lemma uninterrupted_Cons:
  "uninterrupted (r # rs) = (if r = Recv_fail EINTR then uninterrupted rs else r # uninterrupted rs)"
  by (simp add: uninterrupted_def)

lemma echo_run_uninterrupted:
  "echo_run se fd peer buf (uninterrupted rs) ss =
     (without_interrupts fd (fst (echo_run se fd peer buf rs ss)), snd (echo_run se fd peer buf rs ss))"
proof (induction rs arbitrary: buf ss)
  case Nil
  show ?case by (simp add: uninterrupted_def echo_run_Nil without_interrupts_def)
next
  case (Cons r rs)
  note unf = uninterrupted_Cons
  show ?case
  proof (cases r)
    case (Recv_fail e)
    show ?thesis
    proof (cases "e = EINTR")
      case True
      with Recv_fail Cons.IH [of buf ss] show ?thesis
        by (auto simp: unf echo_run_fail without_interrupts_Cons split: prod.splits)
    next
      case False
      with Recv_fail show ?thesis
        by (simp add: unf echo_run_fail without_interrupts_Cons)
    qed
  next
    case (Recv_ok c)
    show ?thesis
    proof (cases "c = []")
      case True
      with Recv_ok show ?thesis by (simp add: unf echo_run_eof without_interrupts_Cons)
    next
      case False
      let ?buf = "c @ drop (length c) buf"
      obtain ts out where sl: "send_loop fd ?buf (int (length c)) (int 0) ss = (ts, out)"
        by (cases "send_loop fd ?buf (int (length c)) (int 0) ss")
      note sh = send_loop_shape [OF sl]
      from sl have sl0: "send_loop fd ?buf (int (length c)) 0 ss = (ts, out)" by simp
      show ?thesis
      proof (cases out)
        case (Send_done ss')
        with sh have "without_interrupts fd ts = ts" by (simp add: without_interrupts_sends)
        with Recv_ok False sl0 Send_done Cons.IH [of ?buf ss'] show ?thesis
          by (auto simp: unf echo_run_chunk without_interrupts_Cons without_interrupts_append
              split: prod.splits)
      next
        case (Send_error e)
        with sh obtain ts' bs where a: "ts = ts' @ [Send fd bs (Send_fail e)]"
          "list_all (is_send_ok fd) ts'" by auto
        then have "without_interrupts fd ts = ts"
          by (simp add: without_interrupts_append without_interrupts_sends without_interrupts_Cons)
        with Recv_ok False sl0 Send_error show ?thesis
          by (simp add: unf echo_run_chunk without_interrupts_Cons without_interrupts_append)
      next
        case Send_pending
        with sh have "without_interrupts fd ts = ts" by (simp add: without_interrupts_sends)
        with Recv_ok False sl0 Send_pending show ?thesis
          by (simp add: unf echo_run_chunk without_interrupts_Cons)
      qed
    qed
  qed
qed

lemma handle_client_uninterrupted:
  "handle_client se fd addr (uninterrupted rs) ss =
     (without_interrupts fd (fst (handle_client se fd addr rs ss)), snd (handle_client se fd addr rs ss))"
  by (simp add: handle_client_eq echo_run_uninterrupted without_interrupts_Cons Let_def
      split: prod.splits)

lemma demo_run_reset:
  "handle_client demo_strerror 5 demo_addr demo_recvs_reset demo_sends =
     ([Log ''Connected: 192.168.0.7:50000'',
       Recv 5 BUF_SZ (Recv_ok ''hello''),
       Send 5 ''hello'' (Send_ok 2), Send 5 ''llo'' (Send_ok 3),
       Recv 5 BUF_SZ (Recv_fail 104),
       Log ''Error in recv(): errno 104'', Close 5],
      Exited Recv_failed)"
  by (simp add: handle_client_eq demo_peer demo_recvs_reset_def demo_sends_def echo_run_chunk
      echo_run_fail echo_run_eof EINTR_def Let_def demo_strerror_def to_string_def dec.simps
      digit_char_def)

text \<open>
  Claim C4. Wherever a \<open>recv\<close> fails in a run of the handler: if \<open>errno\<close> is
  \<open>EINTR\<close>, the next call is again a \<open>recv\<close> on the connection (or the run has got
  no further yet and the handler has not returned); if it is anything else, the run goes
  on with the error line and the \<open>close\<close> and nothing else, and the handler has
  returned by the \<open>recv\<close>-error path. The interrupted calls change nothing: the run
  on the script without them is the same run without those calls, with the same
  status.
\<close>

theorem recv_error_handling:
  assumes "handle_client strerror fd addr rs ss = (t, st)"
    and "t = pre @ Recv fd' len (Recv_fail e) # post"
  shows "(if e = EINTR then (post = [] \<and> st = Blocked) \<or> (post \<noteq> [] \<and> is_recv fd (hd post))
          else post = [Log (''Error in recv(): '' @ strerror e), Close fd] \<and> st = Exited Recv_failed) \<and>
         handle_client strerror fd addr (uninterrupted rs) ss = (without_interrupts fd t, st)"
  using handle_client_follows [OF assms] handle_client_uninterrupted [of strerror fd addr rs ss] assms(1)
  by simp

theorem recv_error_handling_witness:
  "EINTR = 4 \<and>
   fst (handle_client demo_strerror 5 demo_addr demo_recvs demo_sends) =
     [Log ''Connected: 192.168.0.7:50000'', Recv 5 BUF_SZ (Recv_ok ''hello''),
      Send 5 ''hello'' (Send_ok 2), Send 5 ''llo'' (Send_ok 3)] @
     Recv 5 BUF_SZ (Recv_fail 4) #
     [Recv 5 BUF_SZ (Recv_ok ''world''), Send 5 ''world'' (Send_ok 5), Recv 5 BUF_SZ (Recv_ok []),
      Log ''Client disconnected: 192.168.0.7:50000'', Close 5] \<and>
   handle_client demo_strerror 5 demo_addr (uninterrupted demo_recvs) demo_sends =
     ([Log ''Connected: 192.168.0.7:50000'', Recv 5 BUF_SZ (Recv_ok ''hello''),
       Send 5 ''hello'' (Send_ok 2), Send 5 ''llo'' (Send_ok 3),
       Recv 5 BUF_SZ (Recv_ok ''world''), Send 5 ''world'' (Send_ok 5), Recv 5 BUF_SZ (Recv_ok []),
       Log ''Client disconnected: 192.168.0.7:50000'', Close 5], Exited Peer_closed) \<and>
   fst (handle_client demo_strerror 5 demo_addr demo_recvs_reset demo_sends) =
     [Log ''Connected: 192.168.0.7:50000'', Recv 5 BUF_SZ (Recv_ok ''hello''),
      Send 5 ''hello'' (Send_ok 2), Send 5 ''llo'' (Send_ok 3)] @
     Recv 5 BUF_SZ (Recv_fail 104) # [Log (''Error in recv(): '' @ demo_strerror 104), Close 5] \<and>
   snd (handle_client demo_strerror 5 demo_addr demo_recvs_reset demo_sends) = Exited Recv_failed"
proof -
  have s1: "[Log ''Connected: 192.168.0.7:50000'',
       Recv 5 BUF_SZ (Recv_ok ''hello''),
       Send 5 ''hello'' (Send_ok 2), Send 5 ''llo'' (Send_ok 3),
       Recv 5 BUF_SZ (Recv_fail 4),
       Recv 5 BUF_SZ (Recv_ok ''world''),
       Send 5 ''world'' (Send_ok 5),
       Recv 5 BUF_SZ (Recv_ok []),
       Log ''Client disconnected: 192.168.0.7:50000'', Close 5] =
     [Log ''Connected: 192.168.0.7:50000'', Recv 5 BUF_SZ (Recv_ok ''hello''),
      Send 5 ''hello'' (Send_ok 2), Send 5 ''llo'' (Send_ok 3)] @
     Recv 5 BUF_SZ (Recv_fail 4) #
     [Recv 5 BUF_SZ (Recv_ok ''world''), Send 5 ''world'' (Send_ok 5), Recv 5 BUF_SZ (Recv_ok []),
      Log ''Client disconnected: 192.168.0.7:50000'', Close 5]"
    by simp
  have s2: "[Log ''Connected: 192.168.0.7:50000'',
       Recv 5 BUF_SZ (Recv_ok ''hello''),
       Send 5 ''hello'' (Send_ok 2), Send 5 ''llo'' (Send_ok 3),
       Recv 5 BUF_SZ (Recv_fail 104),
       Log ''Error in recv(): errno 104'', Close 5] =
     [Log ''Connected: 192.168.0.7:50000'', Recv 5 BUF_SZ (Recv_ok ''hello''),
      Send 5 ''hello'' (Send_ok 2), Send 5 ''llo'' (Send_ok 3)] @
     Recv 5 BUF_SZ (Recv_fail 104) # [Log ''Error in recv(): errno 104'', Close 5]"
    by simp
  from recv_error_handling [OF demo_run s1] recv_error_handling [OF demo_run_reset s2]
  show ?thesis
    by (simp add: demo_run demo_run_reset EINTR_def without_interrupts_def)
qed

subsection \<open>\<open>main\<close>: the set-up and the accept loop\<close>

lemma accept_run_Nil: "accept_run se lfd [] = ([], Accepting)"
  by (simp add: accept_run_def)

lemma accept_run_Accepted:
  "accept_run se lfd (Accepted cfd a # rs) =
     (Accept lfd (Accepted cfd a) # Spawn (int cfd) a # fst (accept_run se lfd rs),
      snd (accept_run se lfd rs))"
  by (simp add: accept_run_def split: prod.splits loop_end.splits)

lemma accept_run_fail:
  "accept_run se lfd (Accept_fail e # rs) =
     (if e = EINTR then (Accept lfd (Accept_fail e) # fst (accept_run se lfd rs), snd (accept_run se lfd rs))
      else ([Accept lfd (Accept_fail e), Cerr (''accept() failed: '' @ se e @ [CHR 0x0A]), Close lfd],
            Exit 0))"
  by (simp add: accept_run_def split: prod.splits loop_end.splits)

lemma main_uncaught: "port_of stoi argv = None \<Longrightarrow> main stoi se argv su rs = ([], Uncaught)"
  by (simp add: main_def port_of_def)

lemma main_failed:
  "port_of stoi argv = Some port \<Longrightarrow> startup_failed su \<Longrightarrow>
   snd (main stoi se argv su rs) = Exit 1 \<and>
   list_all (\<lambda>ev. \<not> is_accept ev) (fst (main stoi se argv su rs))"
  by (auto simp: main_def port_of_def startup_failed_def Let_def split: sys_result.splits)

lemma main_started:
  "port_of stoi argv = Some port \<Longrightarrow> \<not> startup_failed su \<Longrightarrow>
   \<exists>fd v2 v3 v4. socket_r su = Sys_ok fd \<and> setsockopt_r su = Sys_ok v2 \<and>
     bind_r su = Sys_ok v3 \<and> listen_r su = Sys_ok v4 \<and>
     main stoi se argv su rs =
       (startup_trace port fd v2 v3 v4 @ fst (accept_run se (int fd) rs), snd (accept_run se (int fd) rs))"
  by (auto simp: main_def port_of_def startup_failed_def startup_trace_def accept_run_def Let_def
      split: sys_result.splits prod.splits loop_end.splits)


lemma accept_run_follows:
  "all_tails (follows_accept se lfd (snd (accept_run se lfd rs))) (fst (accept_run se lfd rs)) \<and>
   (fst (accept_run se lfd rs) = [] \<longrightarrow> snd (accept_run se lfd rs) = Accepting) \<and>
   (fst (accept_run se lfd rs) \<noteq> [] \<longrightarrow> is_accept_on lfd (hd (fst (accept_run se lfd rs))))"
proof (induction rs)
  case Nil
  show ?case by (simp add: accept_run_Nil)
next
  case (Cons r rs)
  show ?case
  proof (cases r)
    case (Accepted cfd a)
    with Cons show ?thesis by (simp add: accept_run_Accepted)
  next
    case (Accept_fail e)
    with Cons show ?thesis by (auto simp: accept_run_fail)
  qed
qed

lemma accept_run_status:
  "snd (accept_run se lfd rs) = (if list_ex fatal_accept rs then Exit 0 else Accepting) \<and>
   (list_ex fatal_accept rs \<longrightarrow> last (fst (accept_run se lfd rs)) = Close lfd)"
proof (induction rs)
  case Nil
  show ?case by (simp add: accept_run_Nil)
next
  case (Cons r rs)
  show ?case
  proof (cases r)
    case (Accepted cfd a)
    with Cons accept_run_follows [of se lfd rs] show ?thesis
      by (auto simp: accept_run_Accepted)
  next
    case (Accept_fail e)
    with Cons accept_run_follows [of se lfd rs] show ?thesis
      by (auto simp: accept_run_fail)
  qed
qed

lemma accept_run_uninterrupted:
  "accept_run se lfd (uninterrupted_accepts rs) =
     (without_accept_interrupts lfd (fst (accept_run se lfd rs)), snd (accept_run se lfd rs))"
proof (induction rs)
  case Nil
  show ?case
    by (simp add: accept_run_Nil uninterrupted_accepts_def without_accept_interrupts_def)
next
  case (Cons r rs)
  show ?case
  proof (cases r)
    case (Accepted cfd a)
    with Cons show ?thesis
      by (simp add: accept_run_Accepted uninterrupted_accepts_def without_accept_interrupts_def)
  next
    case (Accept_fail e)
    with Cons show ?thesis
      by (simp add: accept_run_fail uninterrupted_accepts_def without_accept_interrupts_def)
  qed
qed

lemma startup_quiet:
  "ev \<in> set (startup_trace port fd v2 v3 v4) \<Longrightarrow> follows_accept se lfd st ev post"
  by (auto simp: startup_trace_def)

lemma startup_without_interrupts:
  "without_accept_interrupts lfd (startup_trace port fd v2 v3 v4 @ t) =
     startup_trace port fd v2 v3 v4 @ without_accept_interrupts lfd t"
  by (simp add: startup_trace_def without_accept_interrupts_def)

text \<open>Whatever the set-up, an event of \<open>main\<close> is followed as \<open>follows_accept\<close> says,
  on the socket that \<open>socket\<close> returned.\<close>

lemma main_follows:
  assumes "main stoi se argv su rs = (t, st)" and "t = pre @ Accept fd' r # post"
  shows "\<exists>fd. socket_r su = Sys_ok fd \<and> fd' = int fd \<and> follows_accept se (int fd) st (Accept fd' r) post"
proof (cases "port_of stoi argv")
  case None
  with assms show ?thesis by (simp add: main_uncaught)
next
  case (Some port)
  show ?thesis
  proof (cases "startup_failed su")
    case True
    from main_failed [OF Some True, of se rs] assms show ?thesis by simp
  next
    case False
    from main_started [OF Some False, of se rs] obtain fd v2 v3 v4 where
      fd: "socket_r su = Sys_ok fd" and
      m: "main stoi se argv su rs =
            (startup_trace port fd v2 v3 v4 @ fst (accept_run se (int fd) rs),
             snd (accept_run se (int fd) rs))"
      by blast
    from m assms(1) have t: "t = startup_trace port fd v2 v3 v4 @ fst (accept_run se (int fd) rs)"
      and st: "st = snd (accept_run se (int fd) rs)" by simp_all
    have "all_tails (follows_accept se (int fd) st) t"
      unfolding t st
      using accept_run_follows [of se "int fd" rs]
      by (simp add: all_tails_quiet [OF startup_quiet])
    with assms(2) have f: "follows_accept se (int fd) st (Accept fd' r) post"
      by (simp add: all_tails_iff)
    then have "fd' = int fd" by (cases r) simp_all
    with fd f show ?thesis by simp
  qed
qed

lemma main_uninterrupted:
  assumes "main stoi se argv su rs = (t, st)" and "socket_r su = Sys_ok fd"
  shows "main stoi se argv su (uninterrupted_accepts rs) = (without_accept_interrupts (int fd) t, st)"
proof (cases "port_of stoi argv")
  case None
  with assms show ?thesis by (simp add: main_uncaught without_accept_interrupts_def)
next
  case (Some port)
  show ?thesis
  proof (cases "startup_failed su")
    case True
    have same: "main stoi se argv su (uninterrupted_accepts rs) = main stoi se argv su rs"
      using True Some
      by (auto simp: main_def port_of_def startup_failed_def Let_def split: sys_result.splits)
    from main_failed [OF Some True, of se rs] assms(1)
    have "list_all (\<lambda>ev. \<not> is_accept ev) t" by simp
    then have "without_accept_interrupts (int fd) t = t"
      unfolding without_accept_interrupts_def by (induction t) auto
    with same assms(1) show ?thesis by simp
  next
    case False
    from main_started [OF Some False, of se rs] main_started [OF Some False, of se "uninterrupted_accepts rs"]
      assms
    show ?thesis
      by (auto simp: accept_run_uninterrupted startup_without_interrupts)
  qed
qed


lemma demo_main_run:
  "main demo_stoi demo_strerror [''server''] demo_startup demo_accepts =
     ([Socket (Sys_ok 3), Setsockopt 3 (Sys_ok 0),
       Bind 3 \<lparr>sin_port = htons 8080, sin_addr = [0, 0, 0, 0]\<rparr> (Sys_ok 0),
       Listen 3 (Sys_ok 0), Log ''Listening on port 8080'',
       Accept 3 (Accept_fail 4),
       Accept 3 (Accepted 5 demo_addr), Spawn 5 demo_addr,
       Accept 3 (Accept_fail 9), Cerr (''accept() failed: errno 9'' @ [CHR 0x0A]), Close 3],
      Exit 0)"
  by (simp add: main_def demo_startup_def demo_accepts_def demo_strerror_def EINTR_def Let_def
      to_string_def dec.simps digit_char_def)

lemma demo_main_inuse:
  "main demo_stoi demo_strerror [''server'', ''9000''] demo_startup_inuse demo_accepts =
     ([Socket (Sys_ok 3), Setsockopt 3 (Sys_ok 0),
       Bind 3 \<lparr>sin_port = htons 9000, sin_addr = [0, 0, 0, 0]\<rparr> (Sys_fail 98),
       Cerr (''bind() failed: errno 98'' @ [CHR 0x0A]), Close 3],
      Exit 1)"
  by (simp add: main_def demo_startup_inuse_def demo_stoi_def demo_strerror_def Let_def
      to_string_def dec.simps digit_char_def)

text \<open>
  Claim C6. Wherever an \<open>accept\<close> fails in a run of \<open>main\<close>, it is an \<open>accept\<close> on
  the listening socket, and: if \<open>errno\<close> is \<open>EINTR\<close>, the next call is again an
  \<open>accept\<close> on that socket (or the run has got no further yet); if it is anything
  else, the run goes on with the line \<open>accept() failed: ...\<close> on \<open>std::cerr\<close> and the
  \<open>close\<close> of the listening socket and nothing else, and \<open>main\<close> has returned 0. The
  interrupted calls change nothing: the run on the script without them is the same
  run without those calls, with the same status.
\<close>

theorem accept_error_handling:
  assumes "main stoi strerror argv su rs = (t, st)"
    and "t = pre @ Accept fd' (Accept_fail e) # post"
  shows "(\<exists>fd. socket_r su = Sys_ok fd \<and> fd' = int fd) \<and>
         (if e = EINTR then (post = [] \<and> st = Accepting) \<or> (post \<noteq> [] \<and> is_accept_on fd' (hd post))
          else post = [Cerr (''accept() failed: '' @ strerror e @ [CHR 0x0A]), Close fd'] \<and>
               st = Exit 0) \<and>
         main stoi strerror argv su (uninterrupted_accepts rs) = (without_accept_interrupts fd' t, st)"
proof -
  from main_follows [OF assms] obtain fd where fd: "socket_r su = Sys_ok fd" "fd' = int fd"
    and f: "follows_accept strerror (int fd) st (Accept fd' (Accept_fail e)) post"
    by blast
  from main_uninterrupted [OF assms(1) fd(1)] fd f show ?thesis by simp
qed

theorem accept_error_handling_witness:
  "EINTR = 4 \<and>
   fst (main demo_stoi demo_strerror [''server''] demo_startup demo_accepts) =
     [Socket (Sys_ok 3), Setsockopt 3 (Sys_ok 0),
      Bind 3 \<lparr>sin_port = htons 8080, sin_addr = [0, 0, 0, 0]\<rparr> (Sys_ok 0),
      Listen 3 (Sys_ok 0), Log ''Listening on port 8080''] @
     Accept 3 (Accept_fail 4) #
     [Accept 3 (Accepted 5 demo_addr), Spawn 5 demo_addr,
      Accept 3 (Accept_fail 9), Cerr (''accept() failed: errno 9'' @ [CHR 0x0A]), Close 3] \<and>
   fst (main demo_stoi demo_strerror [''server''] demo_startup demo_accepts) =
     [Socket (Sys_ok 3), Setsockopt 3 (Sys_ok 0),
      Bind 3 \<lparr>sin_port = htons 8080, sin_addr = [0, 0, 0, 0]\<rparr> (Sys_ok 0),
      Listen 3 (Sys_ok 0), Log ''Listening on port 8080'',
      Accept 3 (Accept_fail 4), Accept 3 (Accepted 5 demo_addr), Spawn 5 demo_addr] @
     Accept 3 (Accept_fail 9) #
     [Cerr (''accept() failed: '' @ demo_strerror 9 @ [CHR 0x0A]), Close 3] \<and>
   snd (main demo_stoi demo_strerror [''server''] demo_startup demo_accepts) = Exit 0 \<and>
   main demo_stoi demo_strerror [''server''] demo_startup (uninterrupted_accepts demo_accepts) =
     ([Socket (Sys_ok 3), Setsockopt 3 (Sys_ok 0),
       Bind 3 \<lparr>sin_port = htons 8080, sin_addr = [0, 0, 0, 0]\<rparr> (Sys_ok 0),
       Listen 3 (Sys_ok 0), Log ''Listening on port 8080'',
       Accept 3 (Accepted 5 demo_addr), Spawn 5 demo_addr,
       Accept 3 (Accept_fail 9), Cerr (''accept() failed: errno 9'' @ [CHR 0x0A]), Close 3],
      Exit 0)"
proof -
  let ?start = "[Socket (Sys_ok 3), Setsockopt 3 (Sys_ok 0),
      Bind 3 \<lparr>sin_port = htons 8080, sin_addr = [0, 0, 0, 0]\<rparr> (Sys_ok 0),
      Listen 3 (Sys_ok 0), Log ''Listening on port 8080'']"
  have s1: "[Socket (Sys_ok 3), Setsockopt 3 (Sys_ok 0),
       Bind 3 \<lparr>sin_port = htons 8080, sin_addr = [0, 0, 0, 0]\<rparr> (Sys_ok 0),
       Listen 3 (Sys_ok 0), Log ''Listening on port 8080'',
       Accept 3 (Accept_fail 4),
       Accept 3 (Accepted 5 demo_addr), Spawn 5 demo_addr,
       Accept 3 (Accept_fail 9), Cerr (''accept() failed: errno 9'' @ [CHR 0x0A]), Close 3] =
     ?start @ Accept 3 (Accept_fail 4) #
     [Accept 3 (Accepted 5 demo_addr), Spawn 5 demo_addr,
      Accept 3 (Accept_fail 9), Cerr (''accept() failed: errno 9'' @ [CHR 0x0A]), Close 3]"
    by simp
  have s2: "[Socket (Sys_ok 3), Setsockopt 3 (Sys_ok 0),
       Bind 3 \<lparr>sin_port = htons 8080, sin_addr = [0, 0, 0, 0]\<rparr> (Sys_ok 0),
       Listen 3 (Sys_ok 0), Log ''Listening on port 8080'',
       Accept 3 (Accept_fail 4),
       Accept 3 (Accepted 5 demo_addr), Spawn 5 demo_addr,
       Accept 3 (Accept_fail 9), Cerr (''accept() failed: errno 9'' @ [CHR 0x0A]), Close 3] =
     (?start @ [Accept 3 (Accept_fail 4), Accept 3 (Accepted 5 demo_addr), Spawn 5 demo_addr]) @
     Accept 3 (Accept_fail 9) # [Cerr (''accept() failed: errno 9'' @ [CHR 0x0A]), Close 3]"
    by simp
  from accept_error_handling [OF demo_main_run s1] accept_error_handling [OF demo_main_run s2]
  show ?thesis
    by (simp add: demo_main_run EINTR_def without_accept_interrupts_def)
qed

text \<open>
  Claim C7. In a run of \<open>main\<close> that got its port (\<open>std::stoi\<close> did not throw):
  when one of \<open>socket\<close>, \<open>setsockopt\<close>, \<open>bind\<close>, \<open>listen\<close> fails, \<open>main\<close> returns 1
  and no \<open>accept\<close> is ever called; when none fails, \<open>main\<close> returns 0 if some
  \<open>accept\<close> fails other than by \<open>EINTR\<close> and is still accepting otherwise; and when
  it returns 0 its last call is the \<open>close\<close> of the listening socket.
\<close>

theorem exit_codes:
  assumes "main stoi strerror argv su rs = (t, st)" and "st \<noteq> Uncaught"
  shows "(startup_failed su \<longrightarrow> st = Exit 1 \<and> list_all (\<lambda>ev. \<not> is_accept ev) t) \<and>
         (\<not> startup_failed su \<longrightarrow> st = (if list_ex fatal_accept rs then Exit 0 else Accepting)) \<and>
         (st = Exit 0 \<longrightarrow> (\<exists>fd. socket_r su = Sys_ok fd \<and> last t = Close (int fd)))"
proof -
  obtain port where port: "port_of stoi argv = Some port"
    using assms by (cases "port_of stoi argv") (simp_all add: main_uncaught)
  show ?thesis
  proof (cases "startup_failed su")
    case True
    from main_failed [OF port True, of strerror rs] assms(1) True show ?thesis by simp
  next
    case False
    from main_started [OF port False, of strerror rs] obtain fd v2 v3 v4 where
      fd: "socket_r su = Sys_ok fd" and
      m: "main stoi strerror argv su rs =
            (startup_trace port fd v2 v3 v4 @ fst (accept_run strerror (int fd) rs),
             snd (accept_run strerror (int fd) rs))"
      by blast
    from m assms(1) have t: "t = startup_trace port fd v2 v3 v4 @ fst (accept_run strerror (int fd) rs)"
      and st: "st = snd (accept_run strerror (int fd) rs)" by simp_all
    note status = accept_run_status [of strerror "int fd" rs]
    note fol = accept_run_follows [of strerror "int fd" rs]
    have "last t = Close (int fd)" if "st = Exit 0"
    proof -
      from that st fol have ne: "fst (accept_run strerror (int fd) rs) \<noteq> []" by auto
      from that st status have "list_ex fatal_accept rs" by (auto split: if_splits)
      with status have "last (fst (accept_run strerror (int fd) rs)) = Close (int fd)" by simp
      with ne show ?thesis by (simp add: t)
    qed
    with False fd st status show ?thesis by auto
  qed
qed

theorem exit_codes_witness:
  "snd (main demo_stoi demo_strerror [''server''] demo_startup demo_accepts) = Exit 0 \<and>
   \<not> startup_failed demo_startup \<and> list_ex fatal_accept demo_accepts \<and>
   last (fst (main demo_stoi demo_strerror [''server''] demo_startup demo_accepts)) = Close 3 \<and>
   snd (main demo_stoi demo_strerror [''server'', ''9000''] demo_startup_inuse demo_accepts) = Exit 1 \<and>
   startup_failed demo_startup_inuse \<and>
   list_all (\<lambda>ev. \<not> is_accept ev)
     (fst (main demo_stoi demo_strerror [''server'', ''9000''] demo_startup_inuse demo_accepts))"
proof -
  have a: "Exit 0 \<noteq> Uncaught" and b: "Exit 1 \<noteq> Uncaught" by simp_all
  have c: "\<not> startup_failed demo_startup" "startup_failed demo_startup_inuse"
    "list_ex fatal_accept demo_accepts"
    by (simp_all add: startup_failed_def demo_startup_def demo_startup_inuse_def demo_accepts_def
        EINTR_def)
  from exit_codes [OF demo_main_run a] exit_codes [OF demo_main_inuse b] c
  show ?thesis by (simp add: demo_main_run demo_main_inuse)
qed

subsection \<open>How errors are reported\<close>

lemma digit_char_digit: "d < 10 \<Longrightarrow> digit_char d \<in> set ''0123456789''"
  unfolding digit_char_def by (rule nth_mem) simp

lemma dec_four:
  assumes "1000 \<le> n" and "n \<le> 9999"
  shows "dec n = [digit_char (n div 1000), digit_char (n div 100 mod 10),
                  digit_char (n div 10 mod 10), digit_char (n mod 10)]"
proof -
  have a: "dec n = dec (n div 10) @ [digit_char (n mod 10)]"
    using assms by (subst dec.simps) simp
  have b: "dec (n div 10) = dec (n div 100) @ [digit_char (n div 10 mod 10)]"
    using assms by (subst dec.simps) (simp add: div_mult2_eq [symmetric])
  have c: "dec (n div 100) = dec (n div 1000) @ [digit_char (n div 100 mod 10)]"
    using assms by (subst dec.simps) (simp add: div_mult2_eq [symmetric])
  have d: "dec (n div 1000) = [digit_char (n div 1000)]"
    using assms by (subst dec.simps) simp
  show ?thesis by (simp add: a b c d)
qed

text \<open>A field below a hundred comes out in exactly two digits.\<close>

lemma two_digits:
  assumes "n < 100"
  shows "two n = [digit_char (n div 10), digit_char (n mod 10)]"
proof (cases "n < 10")
  case True
  have "dec n = [digit_char n]" using True by (subst dec.simps) simp
  moreover have "digit_char 0 = CHR ''0''" by (simp add: digit_char_def)
  ultimately show ?thesis using True by (simp add: two_def)
next
  case False
  have a: "dec n = dec (n div 10) @ [digit_char (n mod 10)]"
    using False by (subst dec.simps) simp
  have b: "dec (n div 10) = [digit_char (n div 10)]"
    using assms by (subst dec.simps) simp
  show ?thesis using False by (simp add: two_def a b)
qed

lemma log_timestamped:
  assumes "calendar_time now"
  shows "timestamped (concat (log now s))"
proof -
  let ?y = "1900 + tm_year now"
  from assms have y: "1000 \<le> ?y" "?y \<le> 9999" by (simp_all add: calendar_time_def)
  have y3: "?y div 1000 < 10" using y by simp
  from assms have f: "tm_mon now + 1 < 100" "tm_mday now < 100" "tm_hour now < 100"
    "tm_min now < 100" "tm_sec now < 100"
    by (simp_all add: calendar_time_def)
  have d: "tm_mon now + 1 < 100 \<Longrightarrow> (tm_mon now + 1) div 10 < 10" "tm_mday now div 10 < 10"
    "tm_hour now div 10 < 10" "tm_min now div 10 < 10" "tm_sec now div 10 < 10"
    using f by simp_all
  show ?thesis
    using f d
    by (simp add: timestamped_def log_def put_time_def two_digits dec_four [OF y]
        digit_char_digit y3 del: set_simps)
qed

lemma log_text: "concat (log now s) = ''['' @ put_time now @ ''] '' @ s @ [CHR 0x0A]"
  by (simp add: log_def)

lemma cerr_not_timestamped: "\<not> timestamped (''accept() failed: '' @ s)"
  by (simp add: timestamped_def)

lemma reports_timestamped:
  "\<forall>j. calendar_time (clock j) \<Longrightarrow> list_all (\<lambda>ev. \<not> is_cerr ev) t \<Longrightarrow>
   list_all timestamped (reports clock k t)"
  by (induction clock k t rule: reports.induct) (simp_all add: log_timestamped)

text \<open>A thread that writes to \<open>std::cout\<close> only, left alone, leaves on it the texts of
  its calls one after the other.\<close>

lemma cout_insertions_reports:
  "list_all (\<lambda>ev. \<not> is_cerr ev) t \<Longrightarrow>
   concat (cout_insertions clock k t) = concat (reports clock k t)"
  by (induction clock k t rule: reports.induct) simp_all

lemma reports_without_interrupts:
  "reports clock k (without_interrupts fd t) = reports clock k t"
  unfolding without_interrupts_def
  by (induction clock k t rule: reports.induct) simp_all

lemma reports_without_accept_interrupts:
  "reports clock k (without_accept_interrupts fd t) = reports clock k t"
  unfolding without_accept_interrupts_def
  by (induction clock k t rule: reports.induct) simp_all

lemma sends_no_cerr: "list_all (is_send_ok fd) ts \<Longrightarrow> list_all (\<lambda>ev. \<not> is_cerr ev) ts"
  by (induction ts) (auto elim: is_send_ok.elims)

lemma echo_run_no_cerr:
  assumes "echo_run se fd peer buf rs ss = (t, st)"
  shows "list_all (\<lambda>ev. \<not> is_cerr ev) t"
  using assms
proof (induction rule: echo_run_induct)
  case (flushed c rs us ss ts t st)
  then show ?case by (simp add: sends_no_cerr)
next
  case (send_fail c rs us ss ts bs e)
  then show ?case by (simp add: sends_no_cerr)
next
  case (sending c rs ss ts p)
  then show ?case by (simp add: sends_no_cerr)
qed simp_all

lemma handle_client_no_cerr:
  assumes "handle_client se fd addr rs ss = (t, st)"
  shows "list_all (\<lambda>ev. \<not> is_cerr ev) t"
proof -
  obtain t' where run: "echo_run se fd (peer_name addr) (replicate BUF_SZ (CHR 0x00)) rs ss = (t', st)"
    and t: "t = Log (''Connected: '' @ peer_name addr) # t'"
    using assms by (auto simp: handle_client_eq Let_def split: prod.splits)
  from echo_run_no_cerr [OF run] show ?thesis by (simp add: t)
qed

lemma handle_client_reports_uninterrupted:
  "reports clock k (fst (handle_client se fd addr (uninterrupted rs) ss)) =
   reports clock k (fst (handle_client se fd addr rs ss))"
  by (simp add: handle_client_uninterrupted reports_without_interrupts)

lemma main_reports_uninterrupted:
  "reports clock k (fst (main stoi se argv su (uninterrupted_accepts rs))) =
   reports clock k (fst (main stoi se argv su rs))"
proof (cases "socket_r su")
  case (Sys_ok fd)
  have "main stoi se argv su rs = (fst (main stoi se argv su rs), snd (main stoi se argv su rs))"
    by simp
  from main_uninterrupted [OF this Sys_ok] show ?thesis
    by (simp add: reports_without_accept_interrupts)
next
  case (Sys_fail e)
  then have "main stoi se argv su (uninterrupted_accepts rs) = main stoi se argv su rs"
    by (simp add: main_def split: option.splits)
  then show ?thesis by simp
qed

lemma demo_peer2: "peer_name demo_addr2 = ''192.168.0.7:50001''"
  by (simp add: peer_name_def demo_addr2_def inet_ntop_def ntohs_def to_string_def dec.simps
      digit_char_def)

lemma demo_run_waiting:
  "handle_client demo_strerror 6 demo_addr2 [] [] = ([Log ''Connected: 192.168.0.7:50001''], Blocked)"
  by (simp add: handle_client_eq demo_peer2 echo_run_Nil)

lemma demo_texts:
  "log (demo_clock 0) s = [''['', ''2025-01-05 09:03:00'', ''] '', s, [CHR 0x0A]]"
  "log (demo_clock (Suc 0)) s = [''['', ''2025-01-05 09:03:01'', ''] '', s, [CHR 0x0A]]"
  "log (demo_clock 2) s = [''['', ''2025-01-05 09:03:02'', ''] '', s, [CHR 0x0A]]"
  by (simp_all add: log_def put_time_def two_def dec.simps digit_char_def demo_clock_def)

text \<open>
  Claim C8, as the source has it. A call of \<open>log\<close> makes five insertions into
  \<open>std::cout\<close> which, put together, read \<open>[YYYY-MM-DD HH:MM:SS] message\<close> and a
  newline (for a clock reading as \<open>std::localtime\<close> gives it, in a year of four
  digits). Everything the handler writes it writes by \<open>log\<close>; left alone, the thread
  leaves on \<open>std::cout\<close> the texts of its calls one after the other; and the calls of
  \<open>recv\<close> that \<open>EINTR\<close> interrupted are reported nowhere: the run on the script
  without them writes the same. After a \<open>recv\<close> that failed other than by \<open>EINTR\<close>,
  and after a \<open>send\<close> that failed, what the handler writes is the one call of \<open>log\<close>
  with the message \<open>Error in recv(): \<close> or \<open>Error in send(): \<close> followed by the
  description of the error. After an \<open>accept\<close> that failed other than by \<open>EINTR\<close>,
  \<open>main\<close> writes nothing on \<open>std::cout\<close> and, on \<open>std::cerr\<close>, the line
  \<open>accept() failed: \<close> followed by the description; that line has no timestamp. The
  calls of \<open>accept\<close> that \<open>EINTR\<close> interrupted are reported nowhere either.
\<close>

theorem error_reports:
  assumes "\<forall>j. calendar_time (clock j)"
  shows "(timestamped (concat (log (clock k) s)) \<and>
          concat (log (clock k) s) = ''['' @ put_time (clock k) @ ''] '' @ s @ [CHR 0x0A] \<and>
          length (log (clock k) s) = 5) \<and>
         (handle_client strerror fd addr rs ss = (t, st) \<longrightarrow>
            list_all timestamped (reports clock k t) \<and>
            concat (cout_insertions clock k t) = concat (reports clock k t) \<and>
            reports clock k (fst (handle_client strerror fd addr (uninterrupted rs) ss)) =
              reports clock k t) \<and>
         (handle_client strerror fd addr rs ss = (t, st) \<and>
          t = prer @ Recv fdr len (Recv_fail er) # postr \<and> er \<noteq> EINTR \<longrightarrow>
            cout_insertions clock k postr = log (clock k) (''Error in recv(): '' @ strerror er) \<and>
            reports clock k postr = [concat (log (clock k) (''Error in recv(): '' @ strerror er))]) \<and>
         (handle_client strerror fd addr rs ss = (t, st) \<and>
          t = pres @ Send fds bs (Send_fail es) # posts \<longrightarrow>
            cout_insertions clock k posts = log (clock k) (''Error in send(): '' @ strerror es) \<and>
            reports clock k posts = [concat (log (clock k) (''Error in send(): '' @ strerror es))]) \<and>
         (main stoi strerror argv su as = (u, pst) \<and>
          u = prea @ Accept fda (Accept_fail ea) # posta \<and> ea \<noteq> EINTR \<longrightarrow>
            cout_insertions clock k posta = [] \<and>
            reports clock k posta = [''accept() failed: '' @ strerror ea @ [CHR 0x0A]] \<and>
            \<not> timestamped (''accept() failed: '' @ strerror ea @ [CHR 0x0A])) \<and>
         (main stoi strerror argv su as = (u, pst) \<longrightarrow>
            reports clock k (fst (main stoi strerror argv su (uninterrupted_accepts as))) =
              reports clock k u)"
proof (intro conjI impI)
  from assms show "timestamped (concat (log (clock k) s))" by (simp add: log_timestamped)
next
  show "concat (log (clock k) s) = ''['' @ put_time (clock k) @ ''] '' @ s @ [CHR 0x0A]"
    by (rule log_text)
next
  show "length (log (clock k) s) = 5" by (simp add: log_def)
next
  assume h: "handle_client strerror fd addr rs ss = (t, st)"
  from reports_timestamped [OF assms handle_client_no_cerr [OF h]]
  show "list_all timestamped (reports clock k t)" .
  from cout_insertions_reports [OF handle_client_no_cerr [OF h]]
  show "concat (cout_insertions clock k t) = concat (reports clock k t)" .
  from handle_client_reports_uninterrupted [of clock k strerror fd addr rs ss] h
  show "reports clock k (fst (handle_client strerror fd addr (uninterrupted rs) ss)) =
          reports clock k t" by simp
next
  assume h: "handle_client strerror fd addr rs ss = (t, st) \<and>
          t = prer @ Recv fdr len (Recv_fail er) # postr \<and> er \<noteq> EINTR"
  then have "follows strerror fd (peer_name addr) st (Recv fdr len (Recv_fail er)) postr"
    using handle_client_follows by blast
  with h have p: "postr = [Log (''Error in recv(): '' @ strerror er), Close fd]" by simp
  show "cout_insertions clock k postr = log (clock k) (''Error in recv(): '' @ strerror er)"
    by (simp add: p)
  show "reports clock k postr = [concat (log (clock k) (''Error in recv(): '' @ strerror er))]"
    by (simp add: p)
next
  assume h: "handle_client strerror fd addr rs ss = (t, st) \<and>
          t = pres @ Send fds bs (Send_fail es) # posts"
  then have "follows strerror fd (peer_name addr) st (Send fds bs (Send_fail es)) posts"
    using handle_client_follows by blast
  then have p: "posts = [Log (''Error in send(): '' @ strerror es), Close fd]" by simp
  show "cout_insertions clock k posts = log (clock k) (''Error in send(): '' @ strerror es)"
    by (simp add: p)
  show "reports clock k posts = [concat (log (clock k) (''Error in send(): '' @ strerror es))]"
    by (simp add: p)
next
  assume h: "main stoi strerror argv su as = (u, pst) \<and>
          u = prea @ Accept fda (Accept_fail ea) # posta \<and> ea \<noteq> EINTR"
  then obtain lfd where "follows_accept strerror lfd pst (Accept fda (Accept_fail ea)) posta"
    using main_follows by blast
  with h have p: "posta = [Cerr (''accept() failed: '' @ strerror ea @ [CHR 0x0A]), Close lfd]"
    by simp
  show "cout_insertions clock k posta = []" by (simp add: p)
  show "reports clock k posta = [''accept() failed: '' @ strerror ea @ [CHR 0x0A]]"
    by (simp add: p)
next
  show "\<not> timestamped (''accept() failed: '' @ strerror ea @ [CHR 0x0A])"
    by (rule cerr_not_timestamped)
next
  assume "main stoi strerror argv su as = (u, pst)"
  with main_reports_uninterrupted [of clock k stoi strerror argv su as]
  show "reports clock k (fst (main stoi strerror argv su (uninterrupted_accepts as))) =
          reports clock k u" by simp
qed


theorem error_reports_witness:
  "calendar_time (demo_clock 1) \<and>
   timestamped (concat (log (demo_clock 1) (''Error in recv(): '' @ demo_strerror 104))) \<and>
   list_all timestamped
     (reports demo_clock 0 (fst (handle_client demo_strerror 5 demo_addr demo_recvs_reset demo_sends))) \<and>
   reports demo_clock 0 (fst (handle_client demo_strerror 5 demo_addr (uninterrupted demo_recvs) demo_sends)) =
     reports demo_clock 0 (fst (handle_client demo_strerror 5 demo_addr demo_recvs demo_sends)) \<and>
   cout_insertions demo_clock 1 [Log ''Error in recv(): errno 104'', Close 5] =
     log (demo_clock 1) (''Error in recv(): '' @ demo_strerror 104) \<and>
   reports demo_clock 1 [Log ''Error in recv(): errno 104'', Close 5] =
     [concat (log (demo_clock 1) (''Error in recv(): '' @ demo_strerror 104))] \<and>
   reports demo_clock 1 [Log ''Error in send(): errno 4'', Close 5] =
     [concat (log (demo_clock 1) (''Error in send(): '' @ demo_strerror 4))] \<and>
   reports demo_clock 1 [Cerr (''accept() failed: errno 9'' @ [CHR 0x0A]), Close 3] =
     [''accept() failed: '' @ demo_strerror 9 @ [CHR 0x0A]] \<and>
   \<not> timestamped (''accept() failed: '' @ demo_strerror 9 @ [CHR 0x0A])"
proof -
  have clk: "\<forall>j. calendar_time (demo_clock j)"
    by (simp add: calendar_time_def demo_clock_def)
  let ?T1 = "[Log ''Connected: 192.168.0.7:50000'',
       Recv 5 BUF_SZ (Recv_ok ''hello''),
       Send 5 ''hello'' (Send_ok 2), Send 5 ''llo'' (Send_ok 3),
       Recv 5 BUF_SZ (Recv_fail 104),
       Log ''Error in recv(): errno 104'', Close 5]"
  let ?P1 = "[Log ''Connected: 192.168.0.7:50000'', Recv 5 BUF_SZ (Recv_ok ''hello''),
      Send 5 ''hello'' (Send_ok 2), Send 5 ''llo'' (Send_ok 3)]"
  let ?T2 = "[Log ''Connected: 192.168.0.7:50000'',
       Recv 5 BUF_SZ (Recv_ok ''hello''),
       Send 5 ''hello'' (Send_ok 2), Send 5 ''llo'' (Send_ok 0), Send 5 ''llo'' (Send_fail 4),
       Log ''Error in send(): errno 4'', Close 5]"
  let ?P2 = "[Log ''Connected: 192.168.0.7:50000'', Recv 5 BUF_SZ (Recv_ok ''hello''),
      Send 5 ''hello'' (Send_ok 2), Send 5 ''llo'' (Send_ok 0)]"
  let ?T3 = "[Socket (Sys_ok 3), Setsockopt 3 (Sys_ok 0),
       Bind 3 \<lparr>sin_port = htons 8080, sin_addr = [0, 0, 0, 0]\<rparr> (Sys_ok 0),
       Listen 3 (Sys_ok 0), Log ''Listening on port 8080'',
       Accept 3 (Accept_fail 4),
       Accept 3 (Accepted 5 demo_addr), Spawn 5 demo_addr,
       Accept 3 (Accept_fail 9), Cerr (''accept() failed: errno 9'' @ [CHR 0x0A]), Close 3]"
  let ?P3 = "[Socket (Sys_ok 3), Setsockopt 3 (Sys_ok 0),
       Bind 3 \<lparr>sin_port = htons 8080, sin_addr = [0, 0, 0, 0]\<rparr> (Sys_ok 0),
       Listen 3 (Sys_ok 0), Log ''Listening on port 8080'',
       Accept 3 (Accept_fail 4),
       Accept 3 (Accepted 5 demo_addr), Spawn 5 demo_addr]"
  have s1: "?T1 = ?P1 @ Recv 5 BUF_SZ (Recv_fail 104) # [Log ''Error in recv(): errno 104'', Close 5]"
    by simp
  have s2: "?T2 = ?P2 @ Send 5 ''llo'' (Send_fail 4) # [Log ''Error in send(): errno 4'', Close 5]"
    by simp
  have s3: "?T3 = ?P3 @ Accept 3 (Accept_fail 9) #
              [Cerr (''accept() failed: errno 9'' @ [CHR 0x0A]), Close 3]"
    by simp
  have ne: "(104::int) \<noteq> EINTR" "(9::int) \<noteq> EINTR" by (simp_all add: EINTR_def)
  note a = error_reports [OF clk, where strerror = demo_strerror and fd = 5 and addr = demo_addr
      and rs = demo_recvs_reset and ss = demo_sends and t = ?T1 and st = "Exited Recv_failed"
      and s = "''Error in recv(): '' @ demo_strerror 104"
      and prer = ?P1 and fdr = 5 and len = BUF_SZ and er = 104
      and postr = "[Log ''Error in recv(): errno 104'', Close 5]"
      and stoi = demo_stoi and argv = "[''server'']" and su = demo_startup and as = demo_accepts
      and u = ?T3 and pst = "Exit 0" and prea = ?P3 and fda = 3 and ea = 9
      and posta = "[Cerr (''accept() failed: errno 9'' @ [CHR 0x0A]), Close 3]"]
  note b = error_reports [OF clk, where strerror = demo_strerror and fd = 5 and addr = demo_addr
      and rs = demo_recvs and ss = demo_sends_eintr and t = ?T2 and st = "Exited Send_failed"
      and k = 1 and pres = ?P2 and fds = 5 and bs = "''llo''" and es = 4
      and posts = "[Log ''Error in send(): errno 4'', Close 5]"]
  note c = error_reports [OF clk, where strerror = demo_strerror and fd = 5 and addr = demo_addr
      and rs = demo_recvs and ss = demo_sends and k = 0
      and t = "fst (handle_client demo_strerror 5 demo_addr demo_recvs demo_sends)"
      and st = "snd (handle_client demo_strerror 5 demo_addr demo_recvs demo_sends)"]
  have r0: "timestamped (concat (log (demo_clock 1) (''Error in recv(): '' @ demo_strerror 104)))"
    by (rule a [where k = 1, THEN conjunct1, THEN conjunct1])
  have r1: "list_all timestamped
     (reports demo_clock 0 (fst (handle_client demo_strerror 5 demo_addr demo_recvs_reset demo_sends)))"
    using a [where k = 0, THEN conjunct2, THEN conjunct1] by (simp add: demo_run_reset)
  have r1': "reports demo_clock 0 (fst (handle_client demo_strerror 5 demo_addr (uninterrupted demo_recvs) demo_sends)) =
     reports demo_clock 0 (fst (handle_client demo_strerror 5 demo_addr demo_recvs demo_sends))"
    using c [THEN conjunct2, THEN conjunct1] by simp
  have r2: "cout_insertions demo_clock 1 [Log ''Error in recv(): errno 104'', Close 5] =
     log (demo_clock 1) (''Error in recv(): '' @ demo_strerror 104) \<and>
     reports demo_clock 1 [Log ''Error in recv(): errno 104'', Close 5] =
     [concat (log (demo_clock 1) (''Error in recv(): '' @ demo_strerror 104))]"
    using a [where k = 1, THEN conjunct2, THEN conjunct2, THEN conjunct1] demo_run_reset s1 ne(1)
    by blast
  have r3: "reports demo_clock 1 [Log ''Error in send(): errno 4'', Close 5] =
     [concat (log (demo_clock 1) (''Error in send(): '' @ demo_strerror 4))]"
    using b [THEN conjunct2, THEN conjunct2, THEN conjunct2, THEN conjunct1] demo_run_eintr s2
    by blast
  have r4: "reports demo_clock 1 [Cerr (''accept() failed: errno 9'' @ [CHR 0x0A]), Close 3] =
     [''accept() failed: '' @ demo_strerror 9 @ [CHR 0x0A]] \<and>
   \<not> timestamped (''accept() failed: '' @ demo_strerror 9 @ [CHR 0x0A])"
    using a [where k = 1, THEN conjunct2, THEN conjunct2, THEN conjunct2, THEN conjunct2,
        THEN conjunct1] demo_main_run s3 ne(2)
    by blast
  from clk r0 r1 r1' r2 r3 r4 show ?thesis by blast
qed

text \<open>
  Claim C8, as the specification states it, fails in three ways. In the run of \<open>main\<close>
  below an \<open>accept\<close> fails with \<open>errno\<close> 9, and the only line that reports it is on
  \<open>std::cerr\<close> and not of the timestamped form. In the run of the handler a \<open>recv\<close>
  fails with \<open>EINTR\<close>, and nothing the handler writes reports it. And when two
  handlers write at the same time a line of \<open>std::cout\<close> need not have the form: with
  the schedule below, the first insertion of the second handler's \<open>Connected\<close> call
  falls into the first handler's report of a \<open>recv\<close> error.
\<close>

theorem error_reports_counterexample:
  "snd (main demo_stoi demo_strerror [''server''] demo_startup demo_accepts) = Exit 0 \<and>
   Accept 3 (Accept_fail 9) \<in> set (fst (main demo_stoi demo_strerror [''server''] demo_startup demo_accepts)) \<and>
   reports demo_clock 0 (fst (main demo_stoi demo_strerror [''server''] demo_startup demo_accepts)) =
     [''[2025-01-05 09:03:00] Listening on port 8080'' @ [CHR 0x0A],
      ''accept() failed: errno 9'' @ [CHR 0x0A]] \<and>
   \<not> timestamped (''accept() failed: errno 9'' @ [CHR 0x0A]) \<and>
   Recv 5 BUF_SZ (Recv_fail EINTR)
     \<in> set (fst (handle_client demo_strerror 5 demo_addr demo_recvs demo_sends)) \<and>
   reports demo_clock 0 (fst (handle_client demo_strerror 5 demo_addr demo_recvs demo_sends)) =
     [''[2025-01-05 09:03:00] Connected: 192.168.0.7:50000'' @ [CHR 0x0A],
      ''[2025-01-05 09:03:01] Client disconnected: 192.168.0.7:50000'' @ [CHR 0x0A]] \<and>
   lines_of (concat (interleave [True, True, True, True, True, True, False]
       (cout_insertions demo_clock 0
          (fst (handle_client demo_strerror 5 demo_addr demo_recvs_reset demo_sends)))
       (cout_insertions demo_clock 2 (fst (handle_client demo_strerror 6 demo_addr2 [] []))))) =
     [''[2025-01-05 09:03:00] Connected: 192.168.0.7:50000'' @ [CHR 0x0A],
      ''[[2025-01-05 09:03:01] Error in recv(): errno 104'' @ [CHR 0x0A],
      ''2025-01-05 09:03:02] Connected: 192.168.0.7:50001'' @ [CHR 0x0A]] \<and>
   \<not> timestamped (''[[2025-01-05 09:03:01] Error in recv(): errno 104'' @ [CHR 0x0A])"
  by (simp add: demo_main_run demo_run demo_run_reset demo_run_waiting demo_texts EINTR_def
      timestamped_def)

end
